theory Spec2Isabelle
  imports Main
begin

section \<open>Text primitives of the Python source\<close>

text \<open>
  Replies and questions are Python \<open>str\<close> values. They are modelled as \<open>string\<close>,
  a list of 8-bit characters. The model covers ASCII text: the whitespace characters are
  the ASCII characters for which \<open>str.isspace\<close> holds (9 to 13, 28 to 31 and 32), and case
  conversion maps the 26 ASCII letters; every other character is neither whitespace nor
  cased and passes through unchanged.
\<close>

definition is_space :: "char \<Rightarrow> bool" where
  "is_space c \<longleftrightarrow> c \<in> set [CHR 0x09, CHR 0x0A, CHR 0x0B, CHR 0x0C, CHR 0x0D,
                           CHR 0x1C, CHR 0x1D, CHR 0x1E, CHR 0x1F, CHR 0x20]"

definition ascii_lowercase :: string where
  "ascii_lowercase = ''abcdefghijklmnopqrstuvwxyz''"

definition ascii_uppercase :: string where
  "ascii_uppercase = ''ABCDEFGHIJKLMNOPQRSTUVWXYZ''"

definition upper_char :: "char \<Rightarrow> char" where
  "upper_char c =
     (case map_of (zip ascii_lowercase ascii_uppercase) c of Some u \<Rightarrow> u | None \<Rightarrow> c)"

definition lower_char :: "char \<Rightarrow> char" where
  "lower_char c =
     (case map_of (zip ascii_uppercase ascii_lowercase) c of Some l \<Rightarrow> l | None \<Rightarrow> c)"

text \<open>\<open>str.upper()\<close> and \<open>str.lower()\<close>.\<close>

definition upper :: "string \<Rightarrow> string" where
  "upper s = map upper_char s"

definition lower :: "string \<Rightarrow> string" where
  "lower s = map lower_char s"

text \<open>\<open>str.strip()\<close> with no argument removes leading and trailing whitespace.\<close>

definition strip :: "string \<Rightarrow> string" where
  "strip s = rev (dropWhile is_space (rev (dropWhile is_space s)))"

text \<open>\<open>str.rstrip(chars)\<close> removes every trailing character that occurs in \<open>chars\<close>.\<close>

definition rstrip_chars :: "string \<Rightarrow> string \<Rightarrow> string" where
  "rstrip_chars chars s = rev (dropWhile (\<lambda>c. c \<in> set chars) (rev s))"

text \<open>
  \<open>str.split()\<close> with no argument: the maximal runs of non-whitespace characters, in
  order; runs of whitespace separate them and never produce an empty word.
\<close>

function split :: "string \<Rightarrow> string list" where
  "split s =
     (if dropWhile is_space s = [] then []
      else takeWhile (\<lambda>c. \<not> is_space c) (dropWhile is_space s)
           # split (dropWhile (\<lambda>c. \<not> is_space c) (dropWhile is_space s)))"
  by pat_completeness auto
termination
proof (relation "measure length")
  show "wf (measure length)" by simp
next
  fix s :: string
  assume "dropWhile is_space s \<noteq> []"
  then obtain c cs where eq: "dropWhile is_space s = c # cs"
    by (cases "dropWhile is_space s") auto
  have "\<not> is_space c"
    using hd_dropWhile [of is_space s] eq by auto
  then have "length (dropWhile (\<lambda>c. \<not> is_space c) (c # cs)) \<le> length cs"
    by (simp add: length_dropWhile_le)
  moreover have "length (c # cs) \<le> length s"
    using eq length_dropWhile_le [of is_space s] by simp
  ultimately show
    "(dropWhile (\<lambda>c. \<not> is_space c) (dropWhile is_space s), s) \<in> measure length"
    using eq by simp
qed

declare split.simps [simp del]

section \<open>ReportAgent: format validation\<close>

text \<open>
  \<open>ReportAgent.validate_answer\<close>. The first whitespace-delimited word is uppercased and
  loses its trailing commas and periods; the result is returned when it is a member of
  \<open>valid_starts\<close>, and the string \<open>INVALID\<close> otherwise (also when there is no word).
\<close>

definition valid_starts :: "string set" where
  "valid_starts = {''YES'', ''NO'', ''NOT APPLICABLE''}"

definition validate_answer :: "string \<Rightarrow> string" where
  "validate_answer response =
     (let first_word = (case split (strip response) of
                          [] \<Rightarrow> ''INVALID''
                        | w # _ \<Rightarrow> rstrip_chars '',.'' (upper w))
      in if first_word \<in> valid_starts then first_word else ''INVALID'')"

section \<open>Helper: classify\_answer\<close>

definition question_words :: "string set" where
  "question_words = {''what'', ''why'', ''how'', ''when'', ''where'', ''which'', ''who''}"

definition classify_answer :: "string \<Rightarrow> string" where
  "classify_answer answer0 =
     (let answer = lower (strip answer0)
      in if CHR ''?'' \<in> set answer then ''clarification''
         else if (case split answer of [] \<Rightarrow> False | w # _ \<Rightarrow> w \<in> question_words)
           then ''clarification''
         else ''valid'')"

section \<open>The world the program runs in\<close>

text \<open>
  The four agents of the source, and the items of a \<open>Runner.run\<close> result that the program
  looks at: a message output (with the text \<open>ItemHelpers.text_message_output\<close> extracts
  from it), a handoff output (source and target agent), and any other item.
\<close>

datatype agent = MainController | QuestionAgent | ClarificationAgent | AnswerCheckerAgent

datatype run_item =
    MessageOutputItem string
  | HandoffOutputItem agent agent
  | OtherItem

fun agent_name :: "agent \<Rightarrow> string" where
  "agent_name MainController = ''MainController''"
| "agent_name QuestionAgent = ''QuestionAgent''"
| "agent_name ClarificationAgent = ''ClarificationAgent''"
| "agent_name AnswerCheckerAgent = ''AnswerCheckerAgent''"

text \<open>
  One entry of \<open>ReportAgent.responses\<close>: the dictionary with the keys \<open>Question\<close>,
  \<open>Answer\<close> and \<open>Entire Answer\<close>.
\<close>

record answer_record =
  Question :: string
  Answer :: string
  Entire_Answer :: string

text \<open>
  What the program does to its environment, in order: a call of \<open>Runner.run\<close> (agent,
  role and content of the single input item), a \<open>print\<close> (the list of its arguments), an
  \<open>input\<close> (its prompt), and a write of the report file (the sequence dumped).
\<close>

datatype event =
    RunnerRun agent string string
  | Print "string list"
  | InputPrompt string
  | FileWrite "answer_record list"

text \<open>
  The language model behind \<open>Runner.run\<close> is a parameter: the items of the result of the
  \<open>n\<close>-th call of the run, given the agent, the role and the content it was called with.
  Calls are assumed to return; \<open>result.last_agent\<close> is stored by the source and never
  read, so it is left out.
\<close>

type_synonym runner = "nat \<Rightarrow> agent \<Rightarrow> string \<Rightarrow> string \<Rightarrow> run_item list"

text \<open>
  The state: the recorder's in-memory sequence, the content of the report file (\<open>None\<close>
  before the first write), the lines still to be read from standard input, what the
  program has done so far, and the number of \<open>Runner.run\<close> calls made.
\<close>

record world =
  responses :: "answer_record list"
  report_file :: "answer_record list option"
  stdin :: "string list"
  console :: "event list"
  runs :: nat

text \<open>
  \<open>input\<close> raises \<open>EOFError\<close> at the end of standard input. A function of the program
  either raises, leaving the world as it was at that moment, or returns a value.
\<close>

datatype error = EOFError

datatype 'a result = Raised error world | Returned 'a world

text \<open>Python values a function of the program returns: \<open>None\<close> or a string.\<close>

datatype py_value = PyNone | PyStr string

fun truthy :: "py_value \<Rightarrow> bool" where
  "truthy PyNone = False"
| "truthy (PyStr s) = (s \<noteq> [])"

definition emit :: "event list \<Rightarrow> world \<Rightarrow> world" where
  "emit es w = w\<lparr>console := console w @ es\<rparr>"

definition print :: "string list \<Rightarrow> world \<Rightarrow> world" where
  "print args w = emit [Print args] w"

definition input :: "string \<Rightarrow> world \<Rightarrow> string result" where
  "input prompt w =
     (case stdin w of
        [] \<Rightarrow> Raised EOFError (emit [InputPrompt prompt] w)
      | line # rest \<Rightarrow> Returned line (emit [InputPrompt prompt] (w\<lparr>stdin := rest\<rparr>)))"

definition runner_run ::
  "runner \<Rightarrow> agent \<Rightarrow> string \<Rightarrow> string \<Rightarrow> world \<Rightarrow> run_item list \<times> world" where
  "runner_run R a role content w =
     (R (runs w) a role content,
      emit [RunnerRun a role content] (w\<lparr>runs := Suc (runs w)\<rparr>))"

section \<open>ReportAgent: recording and saving\<close>

definition format_prompt :: string where
  "format_prompt = ''Please answer with 'YES', 'NO', or 'NOT APPLICABLE': ''"

text \<open>
  The \<open>while True\<close> loop of \<open>record_answer\<close>: as long as the response is \<open>INVALID\<close> a new
  line is read and stripped. It returns the validated answer with the response it
  belongs to.
\<close>

function validation_loop :: "string \<Rightarrow> world \<Rightarrow> (string \<times> string) result" where
  "validation_loop response w =
     (if validate_answer response = ''INVALID''
      then (case input format_prompt w of
              Raised e w' \<Rightarrow> Raised e w'
            | Returned line w' \<Rightarrow> validation_loop (strip line) w')
      else Returned (validate_answer response, response) w)"
  by pat_completeness auto
termination
  by (relation "measure (\<lambda>(response, w). length (stdin w))")
     (auto simp: input_def emit_def split: list.splits)

declare validation_loop.simps [simp del]

text \<open>
  \<open>ReportAgent.record_answer\<close>. After the loop the record is appended unless a record
  with the same \<open>Question\<close> is present. The function has no \<open>return\<close> statement: it
  returns \<open>None\<close>.
\<close>

definition record_answer :: "string \<Rightarrow> string \<Rightarrow> world \<Rightarrow> py_value result" where
  "record_answer question response0 w =
     (case validation_loop response0 w of
        Raised e w' \<Rightarrow> Raised e w'
      | Returned (validated_answer, response) w' \<Rightarrow>
          (let structured_response =
                 \<lparr>Question = question, Answer = validated_answer,
                  Entire_Answer = strip response\<rparr>
           in if \<not> list_ex (\<lambda>item. Question item = question) (responses w')
              then Returned PyNone
                     (print [''Answer recorded: '' @ strip response]
                        (w'\<lparr>responses := responses w' @ [structured_response]\<rparr>))
              else Returned PyNone
                     (print [''Answer for the question '' @ [CHR 0x27] @ question
                             @ [CHR 0x27] @ '' has already been recorded.''] w')))"

definition filename :: string where
  "filename = ''risk_assessment_report.json''"

text \<open>
  \<open>ReportAgent.save_report\<close> opens the file for writing, which truncates it, and dumps
  the whole of \<open>responses\<close>.
\<close>

definition save_report :: "world \<Rightarrow> world" where
  "save_report w =
     print [''Report saved to '' @ filename]
       (emit [FileWrite (responses w)] (w\<lparr>report_file := Some (responses w)\<rparr>))"

section \<open>The conversation loop for one question\<close>

text \<open>
  The loops over \<open>result.new_items\<close> only print. Each is a function from the items to the
  prints it makes, in order.
\<close>

definition handoff_line :: "agent \<Rightarrow> agent \<Rightarrow> string" where
  "handoff_line source target = ''Handoff: '' @ agent_name source @ '' -> '' @ agent_name target"

text \<open>
  Step 1 takes the text of the first message output, stripped, and the empty string when
  there is none (the loop with \<open>break\<close>).
\<close>

fun first_message :: "run_item list \<Rightarrow> string" where
  "first_message [] = ''''"
| "first_message (MessageOutputItem text # items) = strip text"
| "first_message (HandoffOutputItem source target # items) = first_message items"
| "first_message (OtherItem # items) = first_message items"

fun handoff_prints :: "run_item list \<Rightarrow> event list" where
  "handoff_prints [] = []"
| "handoff_prints (HandoffOutputItem source target # items) =
     Print [handoff_line source target] # handoff_prints items"
| "handoff_prints (MessageOutputItem text # items) = handoff_prints items"
| "handoff_prints (OtherItem # items) = handoff_prints items"

fun clarification_prints :: "run_item list \<Rightarrow> event list" where
  "clarification_prints [] = []"
| "clarification_prints (MessageOutputItem text # items) =
     Print [''Clarification:'', text] # clarification_prints items"
| "clarification_prints (HandoffOutputItem source target # items) =
     Print [handoff_line source target] # clarification_prints items"
| "clarification_prints (OtherItem # items) = clarification_prints items"

text \<open>
  Step 4 prints once for every message output of the re-ask result: the stripped text
  of the message, replaced by the stripped original question when the two differ.
\<close>

fun reask_prints :: "string \<Rightarrow> run_item list \<Rightarrow> event list" where
  "reask_prints question [] = []"
| "reask_prints question (MessageOutputItem text # items) =
     Print [''Question re-asked:'',
            if strip text \<noteq> strip question then strip question else strip text]
     # reask_prints question items"
| "reask_prints question (HandoffOutputItem source target # items) =
     Print [handoff_line source target] # reask_prints question items"
| "reask_prints question (OtherItem # items) = reask_prints question items"

text \<open>
  The loop over the answer checker's items prints \<open>ACclassification\<close>, the stripped and
  lowercased text of each message output. The variable is not read after the loop.
\<close>

fun checker_prints :: "run_item list \<Rightarrow> event list" where
  "checker_prints [] = []"
| "checker_prints (MessageOutputItem text # items) =
     Print [lower (strip text)] # checker_prints items"
| "checker_prints (HandoffOutputItem source target # items) = checker_prints items"
| "checker_prints (OtherItem # items) = checker_prints items"

definition clar_prompt :: "string \<Rightarrow> string \<Rightarrow> string" where
  "clar_prompt question user_ans =
     ''Clarify the question: '' @ question @ [CHR 0x0A] @ ''User asked: '' @ user_ans"

definition check_content :: "string \<Rightarrow> string \<Rightarrow> string" where
  "check_content question user_ans =
     ''Question: '' @ question @ [CHR 0x0A] @ ''Answer: '' @ user_ans"

definition invalid_notice :: string where
  "invalid_notice = ''Invalid response. Please answer with 'YES', 'NO', or 'NOT APPLICABLE'.''"

text \<open>Step 1: ask the question through the main controller and print it.\<close>

definition ask_question :: "runner \<Rightarrow> string \<Rightarrow> world \<Rightarrow> world" where
  "ask_question R question w =
     (case runner_run R MainController ''system'' question w of
        (items, w1) \<Rightarrow>
          (let asked = first_message items;
               asked_question = (if asked \<noteq> strip question then strip question else asked)
           in emit (handoff_prints items) (print [''Question:'', asked_question] w1)))"

text \<open>The loop \<open>while classification == "invalid"\<close>.\<close>

function invalid_loop :: "string \<Rightarrow> string \<Rightarrow> world \<Rightarrow> (string \<times> string) result" where
  "invalid_loop user_ans classification w =
     (if classification = ''invalid''
      then (case input ''Your answer: '' (print [invalid_notice] w) of
              Raised e w' \<Rightarrow> Raised e w'
            | Returned line w' \<Rightarrow>
                invalid_loop (strip line) (classify_answer (strip line)) w')
      else Returned (user_ans, classification) w)"
  by pat_completeness auto
termination
  by (relation "measure (\<lambda>(user_ans, classification, w). length (stdin w))")
     (auto simp: input_def emit_def print_def split: list.splits)

declare invalid_loop.simps [simp del]

text \<open>
  The loop \<open>while classification == "clarification"\<close>: Step 3 asks for a clarification,
  Step 4 re-asks the question, Step 5 reads a new answer and classifies it.
\<close>

function clarification_loop ::
  "runner \<Rightarrow> string \<Rightarrow> string \<Rightarrow> string \<Rightarrow> world \<Rightarrow> (string \<times> string) result" where
  "clarification_loop R question user_ans classification w =
     (if classification = ''clarification''
      then (case runner_run R MainController ''user'' (clar_prompt question user_ans) w of
              (items, w1) \<Rightarrow>
        (case runner_run R MainController ''system'' question
                (emit (clarification_prints items) w1) of
              (items2, w2) \<Rightarrow>
        (case input ''Your answer after clarification: ''
                (emit (reask_prints question items2) w2) of
              Raised e w' \<Rightarrow> Raised e w'
            | Returned line w' \<Rightarrow>
                clarification_loop R question (strip line) (classify_answer (strip line)) w')))
      else Returned (user_ans, classification) w)"
  by pat_completeness auto
termination
  by (relation "measure (\<lambda>(R, question, user_ans, classification, w). length (stdin w))")
     (auto simp: input_def emit_def runner_run_def split: list.splits)

declare clarification_loop.simps [simp del]

text \<open>Steps 2 to 5: read the answer and run the two loops.\<close>

definition get_answer :: "runner \<Rightarrow> string \<Rightarrow> world \<Rightarrow> (string \<times> string) result" where
  "get_answer R question w =
     (case input ''Your answer: '' w of
        Raised e w' \<Rightarrow> Raised e w'
      | Returned line w1 \<Rightarrow>
          (case invalid_loop (strip line) (classify_answer (strip line)) w1 of
             Raised e w' \<Rightarrow> Raised e w'
           | Returned (user_ans, classification) w2 \<Rightarrow>
               clarification_loop R question user_ans classification w2))"

text \<open>
  The answer checker is run on the answer and its items are printed; then Step 7 calls
  \<open>record_answer\<close> and prints the success line when the value returned is true, and
  Step 8 saves the report.
\<close>

definition check_and_record :: "runner \<Rightarrow> string \<Rightarrow> string \<Rightarrow> world \<Rightarrow> py_value result" where
  "check_and_record R question user_ans w =
     (case runner_run R AnswerCheckerAgent ''user'' (check_content question user_ans) w of
        (items, w1) \<Rightarrow>
          (case record_answer question user_ans (emit (checker_prints items) w1) of
             Raised e w' \<Rightarrow> Raised e w'
           | Returned recorded w2 \<Rightarrow>
               Returned PyNone
                 (save_report
                    (if truthy recorded
                     then print [''Answer for question '' @ [CHR 0x27] @ question
                                 @ [CHR 0x27] @ '' recorded successfully.''] w2
                     else w2))))"

definition run_question :: "runner \<Rightarrow> string \<Rightarrow> string \<Rightarrow> world \<Rightarrow> py_value result" where
  "run_question R domain question w =
     (case get_answer R question (ask_question R question w) of
        Raised e w' \<Rightarrow> Raised e w'
      | Returned (user_ans, classification) w' \<Rightarrow> check_and_record R question user_ans w')"

section \<open>The whole interview\<close>

text \<open>
  The questionnaire module is not part of the source; it is a parameter, a dictionary
  from a domain to its questions, given as the list of its items in insertion order.
\<close>

definition questions_list :: "(string \<times> string list) list \<Rightarrow> (string \<times> string) list" where
  "questions_list questionnaire =
     concat (map (\<lambda>(domain, qs). map (\<lambda>q. (domain, q)) qs) questionnaire)"

fun run_questions :: "runner \<Rightarrow> (string \<times> string) list \<Rightarrow> world \<Rightarrow> py_value result" where
  "run_questions R [] w = Returned PyNone w"
| "run_questions R ((domain, q) # rest) w =
     (case run_question R domain q w of
        Raised e w' \<Rightarrow> Raised e w'
      | Returned v w' \<Rightarrow> run_questions R rest (print [] w'))"

text \<open>\<open>main\<close> starts with a fresh \<open>ReportAgent\<close>, whose \<open>responses\<close> is empty.\<close>

definition main :: "runner \<Rightarrow> (string \<times> string list) list \<Rightarrow> world \<Rightarrow> py_value result" where
  "main R questionnaire w =
     (case run_questions R (questions_list questionnaire) (w\<lparr>responses := []\<rparr>) of
        Raised e w' \<Rightarrow> Raised e w'
      | Returned v w' \<Rightarrow> Returned PyNone (save_report w'))"

section \<open>Notions used to state the properties\<close>

text \<open>The world at the start of the program, with the given lines on standard input.\<close>

definition initial_world :: "string list \<Rightarrow> world" where
  "initial_world lines =
     \<lparr>responses = [], report_file = None, stdin = lines, console = [], runs = 0\<rparr>"

text \<open>The world a call ends in, whether it raised or returned.\<close>

fun world_of :: "'a result \<Rightarrow> world" where
  "world_of (Raised e w) = w"
| "world_of (Returned v w) = w"

text \<open>
  The first whitespace-delimited token of a text: its first maximal run of
  non-whitespace characters, empty when the text has none.
\<close>

definition first_token :: "string \<Rightarrow> string" where
  "first_token s = takeWhile (\<lambda>c. \<not> is_space c) (dropWhile is_space s)"

text \<open>
  The outcome of the validation loop in closed form: the replies are the response passed
  in followed by the stripped lines of standard input; the loop prompts once for each
  leading reply that validates to \<open>INVALID\<close>, and either runs out of input or stops
  at the first other reply.
\<close>

definition validation_outcome :: "string \<Rightarrow> world \<Rightarrow> (string \<times> string) result" where
  "validation_outcome response w =
     (let replies = response # map strip (stdin w);
          k = length (takeWhile (\<lambda>reply. validate_answer reply = ''INVALID'') replies);
          w' = w\<lparr>stdin := drop k (stdin w),
                 console := console w @ replicate k (InputPrompt format_prompt)\<rparr>
      in if k = length replies then Raised EOFError w'
         else Returned (validate_answer (replies ! k), replies ! k) w')"

text \<open>The line printed when the question has a record already.\<close>

definition already_recorded_line :: "string \<Rightarrow> string" where
  "already_recorded_line question =
     ''Answer for the question '' @ [CHR 0x27] @ question @ [CHR 0x27]
     @ '' has already been recorded.''"

text \<open>
  What the clarification loop does for a list of replies that are all classified
  \<open>clarification\<close>, when the first \<open>Runner.run\<close> call has number \<open>n\<close>: for each reply
  the clarification call and its prints, the re-ask call and its prints, and the prompt
  for a new answer.
\<close>

fun clar_events :: "runner \<Rightarrow> string \<Rightarrow> nat \<Rightarrow> string list \<Rightarrow> event list" where
  "clar_events R question n [] = []"
| "clar_events R question n (reply # replies) =
     RunnerRun MainController ''user'' (clar_prompt question reply)
     # clarification_prints (R n MainController ''user'' (clar_prompt question reply))
     @ RunnerRun MainController ''system'' question
     # reask_prints question (R (Suc n) MainController ''system'' question)
     @ InputPrompt ''Your answer after clarification: ''
     # clar_events R question (Suc (Suc n)) replies"

text \<open>
  The outcome of the clarification loop in closed form: the replies are the answer
  passed in followed by the stripped lines of standard input; the loop runs once for
  each leading reply classified \<open>clarification\<close>, and either runs out of input or
  stops at the first other reply.
\<close>

definition clarification_outcome ::
  "runner \<Rightarrow> string \<Rightarrow> string \<Rightarrow> world \<Rightarrow> (string \<times> string) result" where
  "clarification_outcome R question user_ans w =
     (let replies = user_ans # map strip (stdin w);
          k = length (takeWhile (\<lambda>reply. classify_answer reply = ''clarification'') replies);
          w' = w\<lparr>stdin := drop k (stdin w),
                 console := console w @ clar_events R question (runs w) (take k replies),
                 runs := runs w + 2 * k\<rparr>
      in if k = length replies then Raised EOFError w'
         else Returned (replies ! k, classify_answer (replies ! k)) w')"

text \<open>What Step 1 does when its \<open>Runner.run\<close> call has number \<open>n\<close>.\<close>

definition ask_events :: "runner \<Rightarrow> string \<Rightarrow> nat \<Rightarrow> event list" where
  "ask_events R question n =
     RunnerRun MainController ''system'' question
     # Print [''Question:'', strip question]
     # handoff_prints (R n MainController ''system'' question)"

text \<open>
  Observations of a list of events: the events that are not prints (the calls, the
  prompts and the file writes); the texts printed as the question, by Step 1 or by
  Step 4; the sequences written to the report file.
\<close>

fun is_print :: "event \<Rightarrow> bool" where
  "is_print (Print args) = True"
| "is_print (RunnerRun a role content) = False"
| "is_print (InputPrompt prompt) = False"
| "is_print (FileWrite rs) = False"

definition control :: "event list \<Rightarrow> event list" where
  "control es = filter (\<lambda>e. \<not> is_print e) es"

fun presented :: "event \<Rightarrow> string list" where
  "presented (Print [label, text]) =
     (if label = ''Question:'' \<or> label = ''Question re-asked:'' then [text] else [])"
| "presented e = []"

definition presentations :: "event list \<Rightarrow> string list" where
  "presentations es = concat (map presented es)"

fun file_writes :: "event list \<Rightarrow> answer_record list list" where
  "file_writes [] = []"
| "file_writes (FileWrite rs # es) = rs # file_writes es"
| "file_writes (RunnerRun a role content # es) = file_writes es"
| "file_writes (Print args # es) = file_writes es"
| "file_writes (InputPrompt prompt # es) = file_writes es"

text \<open>The events after those of \<open>w\<close> in the world a call ends in.\<close>

definition new_events :: "world \<Rightarrow> 'a result \<Rightarrow> event list" where
  "new_events w r = drop (length (console w)) (console (world_of r))"

text \<open>The calls and the prompt of one round of the clarification loop.\<close>

definition clar_round :: "string \<Rightarrow> string \<Rightarrow> event list" where
  "clar_round question reply =
     [RunnerRun MainController ''user'' (clar_prompt question reply),
      RunnerRun MainController ''system'' question,
      InputPrompt ''Your answer after clarification: '']"

text \<open>
  The steps of a run: its calls, prompts and file writes together with the prints of
  the question.
\<close>

definition steps :: "event list \<Rightarrow> event list" where
  "steps es = filter (\<lambda>e. \<not> is_print e \<or> presented e \<noteq> []) es"

fun is_message :: "run_item \<Rightarrow> bool" where
  "is_message (MessageOutputItem msg) = True"
| "is_message (HandoffOutputItem source target) = False"
| "is_message OtherItem = False"

text \<open>A result with the record of what was done left out of its world.\<close>

definition forget_console :: "world \<Rightarrow> world" where
  "forget_console w =
     \<lparr>responses = responses w, report_file = report_file w, stdin = stdin w,
      console = [], runs = runs w\<rparr>"

fun forget :: "'a result \<Rightarrow> 'a result" where
  "forget (Raised e w) = Raised e (forget_console w)"
| "forget (Returned v w) = Returned v (forget_console w)"




section \<open>Facts about the text primitives\<close>

lemma rtrim_decomp: "rev (dropWhile P (rev xs)) @ rev (takeWhile P (rev xs)) = xs"
proof -
  have "rev (takeWhile P (rev xs) @ dropWhile P (rev xs)) = xs"
    by simp
  then show ?thesis
    by (simp only: rev_append)
qed

lemma hd_rtrim:
  assumes "rev (dropWhile P (rev xs)) \<noteq> []"
  shows "hd (rev (dropWhile P (rev xs))) = hd xs"
proof -
  have "hd (rev (dropWhile P (rev xs)) @ rev (takeWhile P (rev xs))) = hd (rev (dropWhile P (rev xs)))"
    using assms by (rule hd_append2)
  then show ?thesis
    by (simp only: rtrim_decomp)
qed

lemma mem_dropWhile: "\<not> P x \<Longrightarrow> x \<in> set (dropWhile P xs) \<longleftrightarrow> x \<in> set xs"
  by (induction xs) auto

lemma mem_rtrim: "\<not> P x \<Longrightarrow> x \<in> set (rev (dropWhile P (rev xs))) \<longleftrightarrow> x \<in> set xs"
  by (simp add: mem_dropWhile)

lemma strip_head: "strip s = [] \<or> \<not> is_space (hd (strip s))"
proof (cases "strip s = []")
  case False
  have ne: "dropWhile is_space s \<noteq> []"
  proof
    assume "dropWhile is_space s = []"
    then have "strip s = []"
      by (simp only: strip_def rev.simps dropWhile.simps)
    with False show False ..
  qed
  have "hd (strip s) = hd (dropWhile is_space s)"
    using False unfolding strip_def by (rule hd_rtrim)
  with ne show ?thesis
    by (simp add: hd_dropWhile)
qed simp

lemma dropWhile_strip: "dropWhile is_space (strip s) = strip s"
  using strip_head [of s] by (simp add: dropWhile_eq_self_iff)

lemma strip_strip: "strip (strip s) = strip s"
proof -
  have "strip (strip s) = rev (dropWhile is_space (rev (strip s)))"
    by (simp add: strip_def [of "strip s"] dropWhile_strip)
  also have "\<dots> = strip s"
    by (simp add: strip_def)
  finally show ?thesis .
qed

lemma is_space_lower_char: "is_space (lower_char c) = is_space c"
  by (simp add: lower_char_def ascii_lowercase_def ascii_uppercase_def is_space_def)

lemma lower_char_qmark: "lower_char c = CHR ''?'' \<longleftrightarrow> c = CHR ''?''"
  by (simp add: lower_char_def ascii_lowercase_def ascii_uppercase_def)

lemma qmark_lower: "CHR ''?'' \<in> set (lower s) \<longleftrightarrow> CHR ''?'' \<in> set s"
proof -
  have "CHR ''?'' \<in> set (map lower_char s) \<longleftrightarrow> CHR ''?'' \<in> set s"
  proof (induction s)
    case (Cons c cs)
    have "CHR ''?'' = lower_char c \<longleftrightarrow> CHR ''?'' = c"
      using lower_char_qmark [of c] by auto
    with Cons show ?case
      by simp
  qed simp
  then show ?thesis
    by (simp add: lower_def)
qed

lemma qmark_strip: "CHR ''?'' \<in> set (strip s) \<longleftrightarrow> CHR ''?'' \<in> set s"
proof -
  have "\<not> is_space CHR ''?''"
    by (simp add: is_space_def)
  then show ?thesis
    by (simp add: strip_def mem_dropWhile)
qed

lemma takeWhile_spaces_tail:
  assumes "\<forall>c\<in>set tail. is_space c"
  shows "takeWhile (\<lambda>c. \<not> is_space c) (xs @ tail) = takeWhile (\<lambda>c. \<not> is_space c) xs"
proof -
  have "takeWhile (\<lambda>c. \<not> is_space c) tail = []"
    using assms by (cases tail) auto
  then show ?thesis
    by (induction xs) simp_all
qed

lemma first_token_strip: "first_token (strip s) = first_token s"
proof -
  let ?u = "dropWhile is_space s"
  have tail: "\<forall>c\<in>set (rev (takeWhile is_space (rev ?u))). is_space c"
    by (auto dest: set_takeWhileD)
  have "first_token (strip s) = takeWhile (\<lambda>c. \<not> is_space c) (strip s)"
    by (simp add: first_token_def dropWhile_strip)
  also have "\<dots> = takeWhile (\<lambda>c. \<not> is_space c) (strip s @ rev (takeWhile is_space (rev ?u)))"
    using takeWhile_spaces_tail [OF tail] by simp
  also have "strip s @ rev (takeWhile is_space (rev ?u)) = ?u"
    unfolding strip_def by (rule rtrim_decomp)
  finally show ?thesis
    by (simp add: first_token_def)
qed

lemma first_token_lower: "first_token (lower s) = lower (first_token s)"
proof -
  have "(\<lambda>c. \<not> is_space c) \<circ> lower_char = (\<lambda>c. \<not> is_space c)"
    and "is_space \<circ> lower_char = is_space"
    by (auto simp: fun_eq_iff is_space_lower_char)
  then show ?thesis
    by (simp add: first_token_def lower_def takeWhile_map dropWhile_map)
qed

lemma split_first_token:
  assumes "[] \<notin> Q"
  shows "(case split s of [] \<Rightarrow> False | w # ws \<Rightarrow> w \<in> Q) \<longleftrightarrow> first_token s \<in> Q"
proof (cases "dropWhile is_space s = []")
  case True
  have "split s = []"
    by (subst split.simps) (simp only: True refl if_True)
  moreover have "first_token s = []"
    by (simp only: first_token_def True takeWhile.simps)
  ultimately show ?thesis
    using assms by simp
next
  case False
  have "split s = first_token s
          # split (dropWhile (\<lambda>c. \<not> is_space c) (dropWhile is_space s))"
    by (subst split.simps) (simp only: False if_False first_token_def)
  then show ?thesis
    by simp
qed

section \<open>Facts about the world and the validation loop\<close>

lemma emit_fields [simp]:
  "responses (emit es w) = responses w"
  "report_file (emit es w) = report_file w"
  "stdin (emit es w) = stdin w"
  "console (emit es w) = console w @ es"
  "runs (emit es w) = runs w"
  by (simp_all add: emit_def)

lemma print_fields [simp]:
  "responses (print args w) = responses w"
  "report_file (print args w) = report_file w"
  "stdin (print args w) = stdin w"
  "console (print args w) = console w @ [Print args]"
  "runs (print args w) = runs w"
  by (simp_all add: print_def)

lemma validation_loop_closed: "validation_loop response w = validation_outcome response w"
proof (induction response w rule: validation_loop.induct)
  case (1 response w)
  show ?case
  proof (cases "validate_answer response = ''INVALID''")
    case False
    then show ?thesis
      by (subst validation_loop.simps) (simp add: validation_outcome_def)
  next
    case True
    show ?thesis
    proof (cases "stdin w")
      case Nil
      with True show ?thesis
        by (subst validation_loop.simps)
           (simp add: validation_outcome_def input_def emit_def)
    next
      case (Cons line rest)
      let ?w' = "emit [InputPrompt format_prompt] (w\<lparr>stdin := rest\<rparr>)"
      have inp: "input format_prompt w = Returned line ?w'"
        using Cons by (simp add: input_def)
      have "validation_loop response w = validation_loop (strip line) ?w'"
        using True inp by (subst validation_loop.simps) simp
      also have "\<dots> = validation_outcome (strip line) ?w'"
        using "1.IH" [OF True inp] .
      also have "\<dots> = validation_outcome response w"
        using True Cons
        by (simp add: validation_outcome_def Let_def emit_def replicate_append_same)
      finally show ?thesis .
    qed
  qed
qed

lemma validation_outcome_exhausted:
  assumes "validate_answer response = ''INVALID''"
    and "\<forall>l\<in>set (stdin w). validate_answer (strip l) = ''INVALID''"
  shows "validation_outcome response w =
           Raised EOFError
             (w\<lparr>stdin := [],
                console := console w
                  @ replicate (Suc (length (stdin w))) (InputPrompt format_prompt)\<rparr>)"
proof -
  have "takeWhile (\<lambda>reply. validate_answer reply = ''INVALID'') (response # map strip (stdin w))
          = response # map strip (stdin w)"
    using assms by (simp add: takeWhile_eq_all_conv)
  then show ?thesis
    by (simp add: validation_outcome_def Let_def)
qed

lemma validation_outcome_accepts:
  assumes "validate_answer response = ''INVALID''"
    and "stdin w = bad @ l # rest"
    and "\<forall>b\<in>set bad. validate_answer (strip b) = ''INVALID''"
    and "validate_answer (strip l) \<noteq> ''INVALID''"
  shows "validation_outcome response w =
           Returned (validate_answer (strip l), strip l)
             (w\<lparr>stdin := rest,
                console := console w
                  @ replicate (Suc (length bad)) (InputPrompt format_prompt)\<rparr>)"
proof -
  have "takeWhile (\<lambda>reply. validate_answer reply = ''INVALID'')
          (response # map strip bad @ strip l # map strip rest)
          = response # map strip bad"
    using assms by (simp add: takeWhile_tail)
  then show ?thesis
    using assms(2) by (simp add: validation_outcome_def Let_def nth_append)
qed

lemma validation_outcome_first:
  assumes "validate_answer response \<noteq> ''INVALID''"
  shows "validation_outcome response w = Returned (validate_answer response, response) w"
  using assms by (simp add: validation_outcome_def)

lemma record_answer_closed:
  "record_answer question response w =
     (case validation_outcome response w of
        Raised e w' \<Rightarrow> Raised e w'
      | Returned (validated_answer, accepted) w' \<Rightarrow>
          if list_ex (\<lambda>item. Question item = question) (responses w')
          then Returned PyNone (print [already_recorded_line question] w')
          else Returned PyNone
                 (print [''Answer recorded: '' @ strip accepted]
                    (w'\<lparr>responses := responses w'
                         @ [\<lparr>Question = question, Answer = validated_answer,
                              Entire_Answer = strip accepted\<rparr>]\<rparr>)))"
  by (simp add: record_answer_def validation_loop_closed already_recorded_line_def Let_def
      split: result.splits prod.splits)

lemma validation_outcome_world:
  "\<exists>k. world_of (validation_outcome response w) =
         w\<lparr>stdin := drop k (stdin w),
           console := console w @ replicate k (InputPrompt format_prompt)\<rparr>"
proof -
  let ?k = "length (takeWhile (\<lambda>reply. validate_answer reply = ''INVALID'')
                      (response # map strip (stdin w)))"
  show ?thesis
    by (rule exI [of _ ?k]) (simp add: validation_outcome_def Let_def)
qed

lemma validation_outcome_valid:
  assumes "validation_outcome response w = Returned (validated_answer, accepted) w'"
  shows "validated_answer = validate_answer accepted \<and> validated_answer \<noteq> ''INVALID''"
proof -
  let ?replies = "response # map strip (stdin w)"
  let ?k = "length (takeWhile (\<lambda>reply. validate_answer reply = ''INVALID'') ?replies)"
  from assms have lt: "?k < length ?replies"
    and acc: "accepted = ?replies ! ?k" and val: "validated_answer = validate_answer (?replies ! ?k)"
    using length_takeWhile_le [of "\<lambda>reply. validate_answer reply = ''INVALID''" ?replies]
    by (auto simp: validation_outcome_def Let_def split: if_splits)
  have "\<not> validate_answer (?replies ! ?k) = ''INVALID''"
    using lt by (rule nth_length_takeWhile)
  with acc val show ?thesis
    by simp
qed

lemma record_answer_exhausted:
  assumes "validate_answer response = ''INVALID''"
    and "\<forall>l\<in>set (stdin w). validate_answer (strip l) = ''INVALID''"
  shows "record_answer question response w =
           Raised EOFError
             (w\<lparr>stdin := [],
                console := console w
                  @ replicate (Suc (length (stdin w))) (InputPrompt format_prompt)\<rparr>)"
  by (simp add: record_answer_closed validation_outcome_exhausted [OF assms])

lemma record_answer_accepts:
  assumes "validate_answer response = ''INVALID''"
    and "stdin w = bad @ l # rest"
    and "\<forall>b\<in>set bad. validate_answer (strip b) = ''INVALID''"
    and "validate_answer (strip l) \<noteq> ''INVALID''"
  shows "record_answer question response w =
           Returned PyNone
             (w\<lparr>stdin := rest,
                responses :=
                  (if list_ex (\<lambda>item. Question item = question) (responses w)
                   then responses w
                   else responses w
                        @ [\<lparr>Question = question, Answer = validate_answer (strip l),
                             Entire_Answer = strip l\<rparr>]),
                console := console w
                  @ replicate (Suc (length bad)) (InputPrompt format_prompt)
                  @ [Print [if list_ex (\<lambda>item. Question item = question) (responses w)
                            then already_recorded_line question
                            else ''Answer recorded: '' @ strip l]]\<rparr>)"
  by (simp add: record_answer_closed validation_outcome_accepts [OF assms] strip_strip
      print_def emit_def)

lemma validation_outcome_frame:
  "responses (world_of (validation_outcome response w)) = responses w"
  "report_file (world_of (validation_outcome response w)) = report_file w"
  "runs (world_of (validation_outcome response w)) = runs w"
  using validation_outcome_world [of response w] by auto

lemma validation_outcome_console:
  "\<exists>k. console (world_of (validation_outcome response w)) =
         console w @ replicate k (InputPrompt format_prompt)"
  using validation_outcome_world [of response w] by auto

lemma record_answer_responses:
  "responses (world_of (record_answer question response w)) =
     (case validation_outcome response w of
        Raised e w' \<Rightarrow> responses w
      | Returned (validated_answer, accepted) w' \<Rightarrow>
          if list_ex (\<lambda>item. Question item = question) (responses w) then responses w
          else responses w @ [\<lparr>Question = question, Answer = validated_answer,
                                Entire_Answer = strip accepted\<rparr>])"
proof (cases "validation_outcome response w")
  case (Raised e w')
  with validation_outcome_frame(1) [of response w] show ?thesis
    by (simp add: record_answer_closed)
next
  case (Returned va w')
  with validation_outcome_frame(1) [of response w] show ?thesis
    by (cases va) (simp add: record_answer_closed)
qed

lemma record_answer_frame:
  "report_file (world_of (record_answer question response w)) = report_file w"
  "runs (world_of (record_answer question response w)) = runs w"
  using validation_outcome_frame(2,3) [of response w]
  by (auto simp: record_answer_closed split: result.splits prod.splits)

lemma record_answer_console:
  "\<exists>k tail. console (world_of (record_answer question response w)) =
       console w @ replicate k (InputPrompt format_prompt) @ tail
     \<and> (\<forall>e\<in>set tail. \<exists>args. e = Print args)"
proof -
  obtain k where k: "console (world_of (validation_outcome response w)) =
         console w @ replicate k (InputPrompt format_prompt)"
    using validation_outcome_console by blast
  show ?thesis
  proof (cases "validation_outcome response w")
    case (Raised e w')
    with k have "console (world_of (record_answer question response w)) =
       console w @ replicate k (InputPrompt format_prompt) @ []"
      by (simp add: record_answer_closed)
    then show ?thesis
      by (metis empty_iff list.set(1))
  next
    case (Returned va w')
    with k have "\<exists>args. console (world_of (record_answer question response w)) =
       console w @ replicate k (InputPrompt format_prompt) @ [Print args]"
      by (cases va; cases "list_ex (\<lambda>item. Question item = question) (responses w')")
         (simp_all add: record_answer_closed)
    then obtain args where "console (world_of (record_answer question response w)) =
       console w @ replicate k (InputPrompt format_prompt) @ [Print args]"
      by blast
    then show ?thesis
      by (metis empty_iff insert_iff list.set(1) list.set(2))
  qed
qed

lemma record_answer_returned_recorded:
  assumes "record_answer question response w = Returned v w'"
  shows "list_ex (\<lambda>item. Question item = question) (responses w')"
  using assms
  by (auto simp: record_answer_closed list_ex_iff split: result.splits prod.splits if_splits)

lemma record_answer_distinct:
  assumes "distinct (map Question (responses w))"
  shows "distinct (map Question (responses (world_of (record_answer question response w))))"
  using assms
  by (auto simp: record_answer_responses list_ex_iff split: result.splits prod.splits)

lemma record_answer_noop:
  assumes "list_ex (\<lambda>item. Question item = question) (responses w)"
  shows "responses (world_of (record_answer question response w)) = responses w"
  using assms by (simp add: record_answer_responses split: result.splits prod.splits)

section \<open>Facts about the conversation loop\<close>

lemma classify_answer_not_invalid: "classify_answer reply \<noteq> ''invalid''"
  by (simp add: classify_answer_def Let_def)

lemma invalid_loop_skip:
  "invalid_loop user_ans (classify_answer user_ans) w
     = Returned (user_ans, classify_answer user_ans) w"
  by (subst invalid_loop.simps) (simp add: classify_answer_not_invalid)

lemma clar_events_append:
  "clar_events R question n (xs @ ys)
     = clar_events R question n xs @ clar_events R question (n + 2 * length xs) ys"
  by (induction xs arbitrary: n) simp_all

lemma clarification_loop_closed:
  "clarification_loop R question user_ans (classify_answer user_ans) w
     = clarification_outcome R question user_ans w"
proof (induction "stdin w" arbitrary: user_ans w)
  case Nil
  show ?case
  proof (cases "classify_answer user_ans = ''clarification''")
    case False
    then show ?thesis
      by (subst clarification_loop.simps) (simp add: clarification_outcome_def)
  next
    case True
    with Nil [symmetric] show ?thesis
      by (subst clarification_loop.simps)
         (simp add: clarification_outcome_def runner_run_def input_def emit_def)
  qed
next
  case (Cons line rest)
  show ?case
  proof (cases "classify_answer user_ans = ''clarification''")
    case False
    then show ?thesis
      by (subst clarification_loop.simps) (simp add: clarification_outcome_def)
  next
    case True
    let ?w' = "w\<lparr>runs := Suc (Suc (runs w)), stdin := rest,
                  console := console w @ clar_events R question (runs w) [user_ans]\<rparr>"
    have step: "clarification_loop R question user_ans (classify_answer user_ans) w
      = clarification_loop R question (strip line) (classify_answer (strip line)) ?w'"
      using True Cons(2) [symmetric]
      by (subst clarification_loop.simps) (simp add: runner_run_def input_def emit_def)
    have "rest = stdin ?w'"
      by simp
    then have "clarification_loop R question (strip line) (classify_answer (strip line)) ?w'
      = clarification_outcome R question (strip line) ?w'"
      by (rule Cons(1))
    also have "\<dots> = clarification_outcome R question user_ans w"
      using True Cons(2) [symmetric]
      by (simp add: clarification_outcome_def Let_def)
    finally show ?thesis
      using step by simp
  qed
qed

lemma ask_question_closed:
  "ask_question R question w =
     w\<lparr>console := console w @ ask_events R question (runs w), runs := Suc (runs w)\<rparr>"
  by (simp add: ask_question_def runner_run_def emit_def print_def ask_events_def Let_def)

lemma get_answer_closed:
  "get_answer R question w =
     (case stdin w of
        [] \<Rightarrow> Raised EOFError (emit [InputPrompt ''Your answer: ''] w)
      | line # rest \<Rightarrow>
          clarification_outcome R question (strip line)
            (emit [InputPrompt ''Your answer: ''] (w\<lparr>stdin := rest\<rparr>)))"
  by (simp add: get_answer_def input_def invalid_loop_skip clarification_loop_closed
      split: list.splits)

lemma get_answer_exhausted:
  assumes "\<forall>l\<in>set (stdin w). classify_answer (strip l) = ''clarification''"
  shows "get_answer R question w =
           Raised EOFError
             (w\<lparr>stdin := [],
                console := console w @ InputPrompt ''Your answer: ''
                  # clar_events R question (runs w) (map strip (stdin w)),
                runs := runs w + 2 * length (stdin w)\<rparr>)"
proof (cases "stdin w")
  case Nil
  then show ?thesis
    by (simp add: get_answer_closed emit_def)
next
  case (Cons line rest)
  with assms have "takeWhile (\<lambda>reply. classify_answer reply = ''clarification'')
                     (strip line # map strip rest) = strip line # map strip rest"
    by (simp add: takeWhile_eq_all_conv)
  with Cons show ?thesis
    by (simp add: get_answer_closed clarification_outcome_def Let_def emit_def)
qed

lemma get_answer_answered:
  assumes "stdin w = cs @ v # rest"
    and "\<forall>c\<in>set cs. classify_answer (strip c) = ''clarification''"
    and "classify_answer (strip v) \<noteq> ''clarification''"
  shows "get_answer R question w =
           Returned (strip v, classify_answer (strip v))
             (w\<lparr>stdin := rest,
                console := console w @ InputPrompt ''Your answer: ''
                  # clar_events R question (runs w) (map strip cs),
                runs := runs w + 2 * length cs\<rparr>)"
proof (cases cs)
  case Nil
  with assms show ?thesis
    by (simp add: get_answer_closed clarification_outcome_def Let_def emit_def)
next
  case (Cons line cs')
  have "takeWhile (\<lambda>reply. classify_answer reply = ''clarification'')
          (map strip cs' @ strip v # map strip rest) = map strip cs'"
    using assms Cons by (simp add: takeWhile_tail)
  moreover have "classify_answer (strip line) = ''clarification''"
    using assms(2) Cons by simp
  ultimately show ?thesis
    using Cons assms(1)
    by (simp add: get_answer_closed clarification_outcome_def Let_def emit_def nth_append)
qed

section \<open>Facts about the events of a run\<close>

lemma control_append [simp]: "control (xs @ ys) = control xs @ control ys"
  by (simp add: control_def)

lemma control_Cons [simp]:
  "control (e # es) = (if is_print e then control es else e # control es)"
  by (simp add: control_def)

lemma control_Nil [simp]: "control [] = []"
  by (simp add: control_def)

lemma presentations_append [simp]:
  "presentations (xs @ ys) = presentations xs @ presentations ys"
  by (simp add: presentations_def)

lemma presentations_Cons [simp]: "presentations (e # es) = presented e @ presentations es"
  by (simp add: presentations_def)

lemma presentations_Nil [simp]: "presentations [] = []"
  by (simp add: presentations_def)

lemma file_writes_append [simp]: "file_writes (xs @ ys) = file_writes xs @ file_writes ys"
  by (induction xs rule: file_writes.induct) simp_all

lemma handoff_prints_obs [simp]:
  "control (handoff_prints items) = []"
  "presentations (handoff_prints items) = []"
  "file_writes (handoff_prints items) = []"
  by (induction items rule: handoff_prints.induct) simp_all

lemma clarification_prints_obs [simp]:
  "control (clarification_prints items) = []"
  "presentations (clarification_prints items) = []"
  "file_writes (clarification_prints items) = []"
  by (induction items rule: clarification_prints.induct) simp_all

lemma checker_prints_obs [simp]:
  "control (checker_prints items) = []"
  "presentations (checker_prints items) = []"
  "file_writes (checker_prints items) = []"
  by (induction items rule: checker_prints.induct) simp_all

lemma reask_prints_obs [simp]:
  "control (reask_prints question items) = []"
  "file_writes (reask_prints question items) = []"
  by (induction question items rule: reask_prints.induct) simp_all

lemma reask_prints_presentations:
  "\<exists>m. presentations (reask_prints question items) = replicate m (strip question)"
proof (induction question items rule: reask_prints.induct)
  case (2 question msg items)
  then obtain m where "presentations (reask_prints question items) = replicate m (strip question)"
    by blast
  then have "presentations (reask_prints question (MessageOutputItem msg # items))
               = replicate (Suc m) (strip question)"
    by simp
  then show ?case
    by blast
qed (simp_all add: exI [of _ 0])

lemma prompts_obs [simp]:
  "control (replicate k (InputPrompt p)) = replicate k (InputPrompt p)"
  "presentations (replicate k (InputPrompt p)) = []"
  "file_writes (replicate k (InputPrompt p)) = []"
  by (induction k) simp_all

lemma clar_events_control [simp]:
  "control (clar_events R question n replies) = concat (map (clar_round question) replies)"
  by (induction replies arbitrary: n) (simp_all add: clar_round_def)

lemma clar_events_file_writes [simp]: "file_writes (clar_events R question n replies) = []"
  by (induction replies arbitrary: n) simp_all

lemma clar_events_presentations:
  "\<exists>m. presentations (clar_events R question n replies) = replicate m (strip question)"
proof (induction replies arbitrary: n)
  case Nil
  show ?case
    by (simp add: exI [of _ 0])
next
  case (Cons reply replies)
  obtain m where "presentations (clar_events R question (Suc (Suc n)) replies)
                    = replicate m (strip question)"
    using Cons by blast
  moreover obtain m' where
    "presentations (reask_prints question (R (Suc n) MainController ''system'' question))
       = replicate m' (strip question)"
    using reask_prints_presentations by blast
  ultimately have "presentations (clar_events R question n (reply # replies))
                     = replicate (m' + m) (strip question)"
    by (simp add: replicate_add)
  then show ?case
    by blast
qed

lemma ask_events_obs [simp]:
  "control (ask_events R question n) = [RunnerRun MainController ''system'' question]"
  "presentations (ask_events R question n) = [strip question]"
  "file_writes (ask_events R question n) = []"
  by (simp_all add: ask_events_def)

lemma steps_append [simp]: "steps (xs @ ys) = steps xs @ steps ys"
  by (simp add: steps_def)

lemma steps_Cons [simp]:
  "steps (e # es) = (if \<not> is_print e \<or> presented e \<noteq> [] then e # steps es else steps es)"
  by (simp add: steps_def)

lemma steps_Nil [simp]: "steps [] = []"
  by (simp add: steps_def)

lemma prints_steps [simp]:
  "steps (handoff_prints items) = []"
  "steps (clarification_prints items) = []"
  "steps (checker_prints items) = []"
  by (induction items rule: handoff_prints.induct) simp_all

lemma reask_prints_steps:
  "steps (reask_prints question items) =
     replicate (length (filter is_message items)) (Print [''Question re-asked:'', strip question])"
  by (induction question items rule: reask_prints.induct) simp_all

lemma clar_events_steps:
  assumes "\<forall>n. length (filter is_message (R n MainController ''system'' question)) = 1"
  shows "steps (clar_events R question n replies) =
           concat (map (\<lambda>reply.
             [RunnerRun MainController ''user'' (clar_prompt question reply),
              RunnerRun MainController ''system'' question,
              Print [''Question re-asked:'', strip question],
              InputPrompt ''Your answer after clarification: '']) replies)"
  using assms by (induction replies arbitrary: n) (simp_all add: reask_prints_steps)

lemma save_report_fields [simp]:
  "responses (save_report w) = responses w"
  "report_file (save_report w) = Some (responses w)"
  "stdin (save_report w) = stdin w"
  "runs (save_report w) = runs w"
  "console (save_report w) =
     console w @ [FileWrite (responses w), Print [''Report saved to '' @ filename]]"
  by (simp_all add: save_report_def)

lemma record_answer_returns_PyNone:
  assumes "record_answer question response w = Returned x w'"
  shows "x = PyNone"
  using assms
  by (auto simp: record_answer_closed split: result.splits prod.splits if_splits)

lemma record_answer_events:
  "case record_answer question response w of
     Raised e w' \<Rightarrow> \<exists>k. console w' = console w @ replicate k (InputPrompt format_prompt)
   | Returned x w' \<Rightarrow>
       \<exists>k line. console w' = console w @ replicate k (InputPrompt format_prompt)
                  @ [Print [line]]"
proof -
  obtain k where k: "console (world_of (validation_outcome response w)) =
         console w @ replicate k (InputPrompt format_prompt)"
    using validation_outcome_console by blast
  show ?thesis
  proof (cases "validation_outcome response w")
    case (Raised e w')
    with k show ?thesis
      by (auto simp: record_answer_closed)
  next
    case (Returned va w')
    with k show ?thesis
      by (cases va; cases "list_ex (\<lambda>item. Question item = question) (responses w')")
         (simp_all add: record_answer_closed)
  qed
qed

lemma check_and_record_closed:
  "check_and_record R question user_ans w =
     (case record_answer question user_ans
             (w\<lparr>runs := Suc (runs w),
                console := console w
                  @ RunnerRun AnswerCheckerAgent ''user'' (check_content question user_ans)
                  # checker_prints
                      (R (runs w) AnswerCheckerAgent ''user''
                         (check_content question user_ans))\<rparr>) of
        Raised e w' \<Rightarrow> Raised e w'
      | Returned x w' \<Rightarrow> Returned PyNone (save_report w'))"
  by (auto simp: check_and_record_def runner_run_def emit_def
      split: result.splits dest: record_answer_returns_PyNone)

lemma check_and_record_events:
  "\<exists>k tail.
     console (world_of (check_and_record R question user_ans w)) =
       console w
       @ RunnerRun AnswerCheckerAgent ''user'' (check_content question user_ans)
       # checker_prints
           (R (runs w) AnswerCheckerAgent ''user'' (check_content question user_ans))
       @ replicate k (InputPrompt format_prompt) @ tail
     \<and> (case check_and_record R question user_ans w of
          Raised e w' \<Rightarrow> tail = []
        | Returned x w' \<Rightarrow>
            \<exists>line. tail = [Print [line], FileWrite (responses w'),
                           Print [''Report saved to '' @ filename]])"
proof -
  let ?w1 = "w\<lparr>runs := Suc (runs w),
                console := console w
                  @ RunnerRun AnswerCheckerAgent ''user'' (check_content question user_ans)
                  # checker_prints
                      (R (runs w) AnswerCheckerAgent ''user''
                         (check_content question user_ans))\<rparr>"
  show ?thesis
  proof (cases "record_answer question user_ans ?w1")
    case (Raised e w')
    with record_answer_events [where question = question and response = user_ans and w = ?w1]
    obtain k where "console w' = console ?w1 @ replicate k (InputPrompt format_prompt)"
      by auto
    with Raised show ?thesis
      by (intro exI [of _ k] exI [of _ "[]"])
         (simp add: check_and_record_closed new_events_def)
  next
    case (Returned x w')
    with record_answer_events [where question = question and response = user_ans and w = ?w1]
    obtain k line where "console w' = console ?w1 @ replicate k (InputPrompt format_prompt)
                  @ [Print [line]]"
      by auto
    with Returned show ?thesis
      by (intro exI [of _ k]
            exI [of _ "[Print [line], FileWrite (responses w'),
                        Print [''Report saved to '' @ filename]]"])
         (simp add: check_and_record_closed new_events_def)
  qed
qed

lemma run_question_exhausted:
  assumes "\<forall>l\<in>set (stdin w). classify_answer (strip l) = ''clarification''"
  shows "run_question R domain question w =
           Raised EOFError
             (w\<lparr>stdin := [],
                console := console w @ ask_events R question (runs w)
                  @ InputPrompt ''Your answer: ''
                  # clar_events R question (Suc (runs w)) (map strip (stdin w)),
                runs := Suc (runs w) + 2 * length (stdin w)\<rparr>)"
proof -
  have "\<forall>l\<in>set (stdin (ask_question R question w)).
          classify_answer (strip l) = ''clarification''"
    using assms by (simp add: ask_question_closed)
  then show ?thesis
    by (simp add: run_question_def get_answer_exhausted) (simp add: ask_question_closed)
qed

lemma run_question_answered:
  assumes "stdin w = cs @ v # rest"
    and "\<forall>c\<in>set cs. classify_answer (strip c) = ''clarification''"
    and "classify_answer (strip v) \<noteq> ''clarification''"
  shows "run_question R domain question w =
           check_and_record R question (strip v)
             (w\<lparr>stdin := rest,
                console := console w @ ask_events R question (runs w)
                  @ InputPrompt ''Your answer: ''
                  # clar_events R question (Suc (runs w)) (map strip cs),
                runs := Suc (runs w) + 2 * length cs\<rparr>)"
proof -
  have "stdin (ask_question R question w) = cs @ v # rest"
    using assms(1) by (simp add: ask_question_closed)
  then show ?thesis
    using assms(2,3)
    by (simp add: run_question_def get_answer_answered) (simp add: ask_question_closed)
qed

lemma replies_cases:
  "(\<forall>l\<in>set ls. classify_answer (strip l) = ''clarification'')
   \<or> (\<exists>cs v rest. ls = cs @ v # rest
        \<and> (\<forall>c\<in>set cs. classify_answer (strip c) = ''clarification'')
        \<and> classify_answer (strip v) \<noteq> ''clarification'')"
  using split_list_first_prop [of ls "\<lambda>l. classify_answer (strip l) \<noteq> ''clarification''"]
  by blast

lemma run_question_exhausted_events:
  assumes "\<forall>l\<in>set (stdin w). classify_answer (strip l) = ''clarification''"
  shows "new_events w (run_question R domain question w) =
           ask_events R question (runs w) @ InputPrompt ''Your answer: ''
           # clar_events R question (Suc (runs w)) (map strip (stdin w))"
  by (simp add: run_question_exhausted [OF assms] new_events_def)

lemma run_question_answered_events:
  assumes "stdin w = cs @ v # rest"
    and "\<forall>c\<in>set cs. classify_answer (strip c) = ''clarification''"
    and "classify_answer (strip v) \<noteq> ''clarification''"
  shows "\<exists>k tail.
     new_events w (run_question R domain question w) =
       ask_events R question (runs w) @ InputPrompt ''Your answer: ''
       # clar_events R question (Suc (runs w)) (map strip cs)
       @ RunnerRun AnswerCheckerAgent ''user'' (check_content question (strip v))
       # checker_prints (R (Suc (runs w) + 2 * length cs) AnswerCheckerAgent ''user''
                            (check_content question (strip v)))
       @ replicate k (InputPrompt format_prompt) @ tail
     \<and> (case run_question R domain question w of
          Raised e w' \<Rightarrow> tail = []
        | Returned x w' \<Rightarrow>
            \<exists>line. tail = [Print [line], FileWrite (responses w'),
                           Print [''Report saved to '' @ filename]])"
proof -
  let ?w' = "w\<lparr>stdin := rest,
                console := console w @ ask_events R question (runs w)
                  @ InputPrompt ''Your answer: ''
                  # clar_events R question (Suc (runs w)) (map strip cs),
                runs := Suc (runs w) + 2 * length cs\<rparr>"
  have run: "run_question R domain question w = check_and_record R question (strip v) ?w'"
    using assms by (rule run_question_answered)
  obtain k tail where
    c: "console (world_of (check_and_record R question (strip v) ?w')) =
       console ?w'
       @ RunnerRun AnswerCheckerAgent ''user'' (check_content question (strip v))
       # checker_prints
           (R (runs ?w') AnswerCheckerAgent ''user'' (check_content question (strip v)))
       @ replicate k (InputPrompt format_prompt) @ tail"
    and t: "case check_and_record R question (strip v) ?w' of
          Raised e w' \<Rightarrow> tail = []
        | Returned x w' \<Rightarrow>
            \<exists>line. tail = [Print [line], FileWrite (responses w'),
                           Print [''Report saved to '' @ filename]]"
    using check_and_record_events [of R question "strip v" ?w'] by blast
  show ?thesis
    using c t unfolding run
    by (intro exI [of _ k] exI [of _ tail]) (simp add: new_events_def)
qed

lemma run_question_answered_shape:
  assumes "stdin w = cs @ v # rest"
    and "\<forall>c\<in>set cs. classify_answer (strip c) = ''clarification''"
    and "classify_answer (strip v) \<noteq> ''clarification''"
  shows "\<exists>k tail.
     new_events w (run_question R domain question w) =
       ask_events R question (runs w) @ InputPrompt ''Your answer: ''
       # clar_events R question (Suc (runs w)) (map strip cs)
       @ RunnerRun AnswerCheckerAgent ''user'' (check_content question (strip v))
       # checker_prints (R (Suc (runs w) + 2 * length cs) AnswerCheckerAgent ''user''
                            (check_content question (strip v)))
       @ replicate k (InputPrompt format_prompt) @ tail
     \<and> (tail = [] \<or> (\<exists>line rs. tail = [Print [line], FileWrite rs,
                           Print [''Report saved to '' @ filename]]))"
proof -
  obtain k tail where
    ev: "new_events w (run_question R domain question w) =
       ask_events R question (runs w) @ InputPrompt ''Your answer: ''
       # clar_events R question (Suc (runs w)) (map strip cs)
       @ RunnerRun AnswerCheckerAgent ''user'' (check_content question (strip v))
       # checker_prints (R (Suc (runs w) + 2 * length cs) AnswerCheckerAgent ''user''
                            (check_content question (strip v)))
       @ replicate k (InputPrompt format_prompt) @ tail"
    and t: "case run_question R domain question w of
          Raised e w' \<Rightarrow> tail = []
        | Returned x w' \<Rightarrow>
            \<exists>line. tail = [Print [line], FileWrite (responses w'),
                           Print [''Report saved to '' @ filename]]"
    using run_question_answered_events [OF assms] by blast
  have "tail = [] \<or> (\<exists>line rs. tail = [Print [line], FileWrite rs,
                           Print [''Report saved to '' @ filename]])"
    using t by (cases "run_question R domain question w") auto
  with ev show ?thesis
    by blast
qed

lemma record_answer_forget:
  "forget (record_answer question response (w\<lparr>console := c\<rparr>))
     = forget (record_answer question response w)"
  by (simp add: record_answer_closed validation_outcome_def Let_def forget_console_def
      print_def emit_def)

lemma check_and_record_forget:
  "forget (check_and_record R1 question user_ans w)
     = forget (check_and_record R2 question user_ans w)"
proof -
  let ?w = "w\<lparr>runs := Suc (runs w)\<rparr>"
  have step: "forget (check_and_record R question user_ans w)
     = (case forget (record_answer question user_ans ?w) of
          Raised e w' \<Rightarrow> Raised e w'
        | Returned x w' \<Rightarrow>
            Returned PyNone (w'\<lparr>report_file := Some (responses w')\<rparr>))" for R
  proof -
    let ?c = "console w
                  @ RunnerRun AnswerCheckerAgent ''user'' (check_content question user_ans)
                  # checker_prints
                      (R (runs w) AnswerCheckerAgent ''user''
                         (check_content question user_ans))"
    have "forget (record_answer question user_ans (?w\<lparr>console := ?c\<rparr>))
            = forget (record_answer question user_ans ?w)"
      by (rule record_answer_forget)
    then show ?thesis
      by (cases "record_answer question user_ans (?w\<lparr>console := ?c\<rparr>)";
          cases "record_answer question user_ans ?w")
         (simp_all add: check_and_record_closed forget_console_def save_report_def
            print_def emit_def)
  qed
  show ?thesis
    by (simp add: step)
qed

lemma clar_events_agree:
  assumes "\<forall>n a role content.
             a \<noteq> AnswerCheckerAgent \<longrightarrow> R1 n a role content = R2 n a role content"
  shows "clar_events R1 question n replies = clar_events R2 question n replies"
  using assms by (induction replies arbitrary: n) simp_all

lemma ask_events_agree:
  assumes "\<forall>n a role content.
             a \<noteq> AnswerCheckerAgent \<longrightarrow> R1 n a role content = R2 n a role content"
  shows "ask_events R1 question n = ask_events R2 question n"
  using assms by (simp add: ask_events_def)

lemma run_question_forget:
  assumes "\<forall>n a role content.
             a \<noteq> AnswerCheckerAgent \<longrightarrow> R1 n a role content = R2 n a role content"
  shows "forget (run_question R1 domain question w) = forget (run_question R2 domain question w)"
proof -
  consider (exhausted) "\<forall>l\<in>set (stdin w). classify_answer (strip l) = ''clarification''"
    | (answered) cs v rest where "stdin w = cs @ v # rest"
        "\<forall>c\<in>set cs. classify_answer (strip c) = ''clarification''"
        "classify_answer (strip v) \<noteq> ''clarification''"
    using replies_cases [of "stdin w"] by blast
  then show ?thesis
  proof cases
    case exhausted
    then show ?thesis
      by (simp add: run_question_exhausted clar_events_agree [OF assms]
          ask_events_agree [OF assms])
  next
    case answered
    then show ?thesis
      by (simp add: run_question_answered clar_events_agree [OF assms]
          ask_events_agree [OF assms] check_and_record_forget [of R1 _ _ _ R2])
  qed
qed

section \<open>Facts about the whole interview\<close>









section \<open>Facts about the questions recorded\<close>

lemma check_and_record_distinct:
  assumes "distinct (map Question (responses w))"
  shows "distinct (map Question (responses (world_of (check_and_record R question user_ans w))))"
proof -
  let ?w1 = "w\<lparr>runs := Suc (runs w),
                console := console w
                  @ RunnerRun AnswerCheckerAgent ''user'' (check_content question user_ans)
                  # checker_prints
                      (R (runs w) AnswerCheckerAgent ''user''
                         (check_content question user_ans))\<rparr>"
  have "distinct (map Question (responses ?w1))"
    using assms by simp
  then have "distinct (map Question
               (responses (world_of (record_answer question user_ans ?w1))))"
    by (rule record_answer_distinct)
  then show ?thesis
    by (cases "record_answer question user_ans ?w1") (simp_all add: check_and_record_closed)
qed

lemma run_question_distinct:
  assumes "distinct (map Question (responses w))"
  shows "distinct (map Question (responses (world_of (run_question R domain question w))))"
proof -
  consider (exhausted) "\<forall>l\<in>set (stdin w). classify_answer (strip l) = ''clarification''"
    | (answered) cs v rest where "stdin w = cs @ v # rest"
        "\<forall>c\<in>set cs. classify_answer (strip c) = ''clarification''"
        "classify_answer (strip v) \<noteq> ''clarification''"
    using replies_cases [of "stdin w"] by blast
  then show ?thesis
  proof cases
    case exhausted
    with assms show ?thesis
      by (simp add: run_question_exhausted)
  next
    case answered
    show ?thesis
      unfolding run_question_answered [OF answered]
      by (rule check_and_record_distinct) (simp add: assms)
  qed
qed

lemma run_questions_distinct:
  assumes "distinct (map Question (responses w))"
  shows "distinct (map Question (responses (world_of (run_questions R qs w))))"
  using assms
proof (induction qs arbitrary: w)
  case Nil
  then show ?case
    by simp
next
  case (Cons dq rest)
  obtain domain q where dq: "dq = (domain, q)"
    by (cases dq)
  have one: "distinct (map Question (responses (world_of (run_question R domain q w))))"
    using Cons.prems by (rule run_question_distinct)
  show ?case
  proof (cases "run_question R domain q w")
    case (Raised e w1)
    with one show ?thesis
      by (simp add: dq)
  next
    case (Returned v w1)
    with one have "distinct (map Question (responses (print [] w1)))"
      by simp
    then have "distinct (map Question
        (responses (world_of (run_questions R rest (print [] w1)))))"
      by (rule Cons.IH)
    with Returned show ?thesis
      by (simp add: dq)
  qed
qed

lemma main_distinct:
  "distinct (map Question (responses (world_of (main R questionnaire w))))"
proof -
  have "distinct (map Question (responses (w\<lparr>responses := []\<rparr>)))"
    by simp
  then have "distinct (map Question (responses (world_of
      (run_questions R (questions_list questionnaire) (w\<lparr>responses := []\<rparr>)))))"
    by (rule run_questions_distinct)
  then show ?thesis
    by (cases "run_questions R (questions_list questionnaire) (w\<lparr>responses := []\<rparr>)")
       (simp_all add: main_def)
qed

section \<open>Facts about the format validator\<close>

lemma upper_char_space: "upper_char c = CHR '' '' \<longleftrightarrow> c = CHR '' ''"
  by (simp add: upper_char_def ascii_lowercase_def ascii_uppercase_def)

lemma split_head_no_space:
  assumes "split s = w # ws"
  shows "\<forall>c\<in>set w. \<not> is_space c"
proof (cases "dropWhile is_space s = []")
  case True
  have "split s = []"
    by (subst split.simps) (simp only: True refl if_True)
  with assms show ?thesis
    by simp
next
  case False
  have "split s = takeWhile (\<lambda>c. \<not> is_space c) (dropWhile is_space s)
          # split (dropWhile (\<lambda>c. \<not> is_space c) (dropWhile is_space s))"
    by (subst split.simps) (simp only: False if_False)
  with assms have "w = takeWhile (\<lambda>c. \<not> is_space c) (dropWhile is_space s)"
    by simp
  then show ?thesis
    by (auto dest: set_takeWhileD)
qed

lemma rstrip_chars_subset: "set (rstrip_chars chars s) \<subseteq> set s"
  by (auto simp: rstrip_chars_def dest: set_dropWhileD)

lemma first_word_no_space:
  assumes "split s = w # ws"
  shows "CHR '' '' \<notin> set (rstrip_chars chars (upper w))"
proof
  assume "CHR '' '' \<in> set (rstrip_chars chars (upper w))"
  then have "CHR '' '' \<in> set (upper w)"
    using rstrip_chars_subset by blast
  then obtain c where "c \<in> set w" and "upper_char c = CHR '' ''"
    by (auto simp: upper_def)
  then have "CHR '' '' \<in> set w"
    by (simp add: upper_char_space)
  moreover have "is_space CHR '' ''"
    by (simp add: is_space_def)
  ultimately show False
    using split_head_no_space [OF assms] by blast
qed

lemma validate_answer_never_not_applicable:
  "validate_answer reply \<noteq> ''NOT APPLICABLE''"
proof (cases "split (strip reply)")
  case Nil
  then show ?thesis
    by (simp add: validate_answer_def valid_starts_def)
next
  case (Cons w ws)
  have "CHR '' '' \<notin> set (rstrip_chars '',.'' (upper w))"
    using Cons by (rule first_word_no_space)
  then have "rstrip_chars '',.'' (upper w) \<noteq> ''NOT APPLICABLE''"
    by auto
  with Cons show ?thesis
    by (simp add: validate_answer_def valid_starts_def Let_def)
qed

section \<open>The format validator\<close>

text \<open>
  Claim C1. The validator is to return \<open>NOT APPLICABLE\<close> for a reply that begins with the
  two-word phrase. The code compares only the first whitespace-delimited word with
  \<open>valid_starts\<close>, so on the reply \<open>not applicable, see attached\<close> the word compared is
  \<open>NOT\<close> and the result is \<open>INVALID\<close>; the reply \<open>Yes, we do.\<close> yields \<open>YES\<close> as claimed.
  No reply at all yields \<open>NOT APPLICABLE\<close>: a word has no space in it.
\<close>

theorem validate_answer_not_applicable:
  "validate_answer ''not applicable, see attached'' = ''INVALID''
   \<and> validate_answer ''NOT APPLICABLE'' = ''INVALID''
   \<and> validate_answer ''Yes, we do.'' = ''YES''
   \<and> (\<forall>reply. validate_answer reply \<noteq> ''NOT APPLICABLE'')"
proof -
  have "validate_answer ''not applicable, see attached'' = ''INVALID''
   \<and> validate_answer ''NOT APPLICABLE'' = ''INVALID''
   \<and> validate_answer ''Yes, we do.'' = ''YES''"
    by code_simp
  then show ?thesis
    using validate_answer_never_not_applicable by blast
qed

section \<open>The local triage\<close>

text \<open>
  Claim C4. \<open>classify_answer\<close> returns \<open>clarification\<close> exactly for the replies that
  contain a question mark or whose first whitespace-delimited token, lowercased, is one
  of \<open>what\<close>, \<open>why\<close>, \<open>how\<close>, \<open>when\<close>, \<open>where\<close>, \<open>which\<close> and \<open>who\<close>, and \<open>valid\<close> for
  every other reply; it returns nothing else. Each of the seven words is matched in any
  case and only as a whole first token; the empty reply and the blank reply are
  \<open>valid\<close>.
\<close>

theorem classify_answer_triage:
  "classify_answer reply =
     (if CHR ''?'' \<in> set reply
         \<or> lower (first_token reply)
             \<in> {''what'', ''why'', ''how'', ''when'', ''where'', ''which'', ''who''}
      then ''clarification'' else ''valid'')
   \<and> classify_answer ''WHAT is MFA'' = ''clarification''
   \<and> classify_answer ''  Why not'' = ''clarification''
   \<and> classify_answer ''hOw so'' = ''clarification''
   \<and> classify_answer ''WHEN'' = ''clarification''
   \<and> classify_answer ''Where to'' = ''clarification''
   \<and> classify_answer ''which one'' = ''clarification''
   \<and> classify_answer ''WHO knows'' = ''clarification''
   \<and> classify_answer ''Is this required?'' = ''clarification''
   \<and> classify_answer ''What does MFA mean?'' = ''clarification''
   \<and> classify_answer ''banana'' = ''valid''
   \<and> classify_answer ''whatever works'' = ''valid''
   \<and> classify_answer ''yes, what else'' = ''valid''
   \<and> classify_answer ''WHAT. is MFA'' = ''valid''
   \<and> classify_answer '''' = ''valid''
   \<and> classify_answer ''   '' = ''valid''"
proof -
  have "[] \<notin> question_words"
    by (simp add: question_words_def)
  then have general: "classify_answer reply =
     (if CHR ''?'' \<in> set reply
         \<or> lower (first_token reply)
             \<in> {''what'', ''why'', ''how'', ''when'', ''where'', ''which'', ''who''}
      then ''clarification'' else ''valid'')"
    unfolding question_words_def [symmetric]
    by (simp add: classify_answer_def qmark_lower qmark_strip split_first_token
        first_token_lower first_token_strip)
  have instances: "classify_answer ''WHAT is MFA'' = ''clarification''
   \<and> classify_answer ''  Why not'' = ''clarification''
   \<and> classify_answer ''hOw so'' = ''clarification''
   \<and> classify_answer ''WHEN'' = ''clarification''
   \<and> classify_answer ''Where to'' = ''clarification''
   \<and> classify_answer ''which one'' = ''clarification''
   \<and> classify_answer ''WHO knows'' = ''clarification''
   \<and> classify_answer ''Is this required?'' = ''clarification''
   \<and> classify_answer ''What does MFA mean?'' = ''clarification''
   \<and> classify_answer ''banana'' = ''valid''
   \<and> classify_answer ''whatever works'' = ''valid''
   \<and> classify_answer ''yes, what else'' = ''valid''
   \<and> classify_answer ''WHAT. is MFA'' = ''valid''
   \<and> classify_answer '''' = ''valid''
   \<and> classify_answer ''   '' = ''valid''"
    by code_simp
  from general instances show ?thesis
    by (rule conjI)
qed

section \<open>The value returned by record\_answer\<close>

text \<open>
  Claim C8. \<open>record_answer\<close> is to return the accepted token. The function has no
  \<open>return\<close> statement: on a fresh recorder, the question \<open>Do you use MFA?\<close> and the reply
  \<open>Yes, we do.\<close> it records the answer \<open>YES\<close> and returns \<open>None\<close>, which the caller's
  test takes as false.
\<close>

theorem record_answer_returns_none:
  "record_answer ''Do you use MFA?'' ''Yes, we do.'' (initial_world []) =
     Returned PyNone
       \<lparr>responses = [\<lparr>Question = ''Do you use MFA?'', Answer = ''YES'',
                      Entire_Answer = ''Yes, we do.''\<rparr>],
        report_file = None, stdin = [],
        console = [Print [''Answer recorded: Yes, we do.'']], runs = 0\<rparr>
   \<and> \<not> truthy PyNone"
  by code_simp

section \<open>The format re-prompt loop\<close>

text \<open>
  What \<open>record_answer\<close> does with a response that \<open>validate_answer\<close> rejects: the prompt
  is issued once for it and once for every further rejected reply. If standard input
  holds no reply that \<open>validate_answer\<close> passes, the call ends with \<open>EOFError\<close> and the
  recorder is unchanged. Otherwise the call returns, and the only record it can create
  carries the first reply that passes and its token.
\<close>

lemma record_answer_reprompts:
  assumes "validate_answer response = ''INVALID''"
  shows "((\<forall>l\<in>set (stdin w). validate_answer (strip l) = ''INVALID'') \<longrightarrow>
            record_answer question response w =
              Raised EOFError
                (w\<lparr>stdin := [],
                   console := console w
                     @ replicate (Suc (length (stdin w))) (InputPrompt format_prompt)\<rparr>))
         \<and> (stdin w = bad @ l # rest
             \<and> (\<forall>b\<in>set bad. validate_answer (strip b) = ''INVALID'')
             \<and> validate_answer (strip l) \<noteq> ''INVALID'' \<longrightarrow>
             record_answer question response w =
               Returned PyNone
                 (w\<lparr>stdin := rest,
                    responses :=
                      (if list_ex (\<lambda>item. Question item = question) (responses w)
                       then responses w
                       else responses w
                            @ [\<lparr>Question = question, Answer = validate_answer (strip l),
                                 Entire_Answer = strip l\<rparr>]),
                    console := console w
                      @ replicate (Suc (length bad)) (InputPrompt format_prompt)
                      @ [Print [if list_ex (\<lambda>item. Question item = question) (responses w)
                                then already_recorded_line question
                                else ''Answer recorded: '' @ strip l]]\<rparr>))"
  using record_answer_exhausted [OF assms] record_answer_accepts [OF assms]
  by blast

text \<open>
  Claim C5. After a malformed reply the loop is to repeat until a reply with an
  accepted token is produced, and \<open>NOT APPLICABLE\<close> is an accepted token, named in the
  prompt itself. On the reply \<open>banana\<close>, which is classified \<open>valid\<close> and fails the format
  check, the corrective prompt is issued and no record is created from that reply; but
  the replies \<open>NOT APPLICABLE\<close>, \<open>Not applicable.\<close> and \<open>not applicable, see attached\<close>
  are each answered with the same prompt and never recorded, to the end of input. With
  \<open>Yes.\<close> after \<open>NOT APPLICABLE\<close> it is \<open>Yes.\<close> that is recorded.
\<close>

theorem not_applicable_reply_reprompted:
  "record_answer ''Do you use MFA?'' ''banana''
     (initial_world [''NOT APPLICABLE'', ''Not applicable.'', ''not applicable, see attached''])
     = Raised EOFError
         \<lparr>responses = [], report_file = None, stdin = [],
          console =
            [InputPrompt ''Please answer with 'YES', 'NO', or 'NOT APPLICABLE': '',
             InputPrompt ''Please answer with 'YES', 'NO', or 'NOT APPLICABLE': '',
             InputPrompt ''Please answer with 'YES', 'NO', or 'NOT APPLICABLE': '',
             InputPrompt ''Please answer with 'YES', 'NO', or 'NOT APPLICABLE': ''],
          runs = 0\<rparr>
   \<and> record_answer ''Do you use MFA?'' ''banana''
       (initial_world [''NOT APPLICABLE'', ''Yes.''])
     = Returned PyNone
         \<lparr>responses = [\<lparr>Question = ''Do you use MFA?'', Answer = ''YES'',
                        Entire_Answer = ''Yes.''\<rparr>],
          report_file = None, stdin = [],
          console =
            [InputPrompt ''Please answer with 'YES', 'NO', or 'NOT APPLICABLE': '',
             InputPrompt ''Please answer with 'YES', 'NO', or 'NOT APPLICABLE': '',
             Print [''Answer recorded: Yes.'']],
          runs = 0\<rparr>
   \<and> classify_answer ''banana'' = ''valid''
   \<and> validate_answer ''banana'' = ''INVALID''"
  by code_simp

section \<open>One record per question\<close>

text \<open>
  Claim C2. A call of \<open>record_answer\<close> for a question that has a record leaves the
  stored sequence as it is, whatever the reply and whether the call returns or ends at
  the end of input. A call that returns leaves a record for its question, so a second
  call for the same question changes nothing. The questions of the stored records stay
  pairwise distinct, and they are pairwise distinct in every world \<open>main\<close> ends in.
\<close>

theorem record_answer_idempotent:
  "(list_ex (\<lambda>item. Question item = question) (responses w) \<longrightarrow>
      responses (world_of (record_answer question response w)) = responses w)
   \<and> (record_answer question response w = Returned v w' \<longrightarrow>
        list_ex (\<lambda>item. Question item = question) (responses w')
        \<and> responses (world_of (record_answer question response' w')) = responses w')
   \<and> (distinct (map Question (responses w)) \<longrightarrow>
        distinct (map Question (responses (world_of (record_answer question response w)))))
   \<and> distinct (map Question (responses (world_of (main R questionnaire w0))))"
  using record_answer_noop record_answer_returned_recorded record_answer_distinct
    main_distinct
  by blast

theorem record_answer_idempotent_witness:
  "record_answer ''Do you use MFA?'' ''yes'' (initial_world []) =
     Returned PyNone
       \<lparr>responses = [\<lparr>Question = ''Do you use MFA?'', Answer = ''YES'',
                      Entire_Answer = ''yes''\<rparr>],
        report_file = None, stdin = [], console = [Print [''Answer recorded: yes'']],
        runs = 0\<rparr>
   \<and> responses (world_of (record_answer ''Do you use MFA?'' ''no''
         \<lparr>responses = [\<lparr>Question = ''Do you use MFA?'', Answer = ''YES'',
                        Entire_Answer = ''yes''\<rparr>],
          report_file = None, stdin = [], console = [Print [''Answer recorded: yes'']],
          runs = 0\<rparr>)) =
       [\<lparr>Question = ''Do you use MFA?'', Answer = ''YES'', Entire_Answer = ''yes''\<rparr>]
   \<and> distinct (map Question
         (responses (world_of (record_answer ''Do you use MFA?'' ''yes'' (initial_world [])))))"
proof -
  let ?w1 = "\<lparr>responses = [\<lparr>Question = ''Do you use MFA?'', Answer = ''YES'',
                      Entire_Answer = ''yes''\<rparr>],
        report_file = None, stdin = [], console = [Print [''Answer recorded: yes'']],
        runs = 0\<rparr>"
  have first: "record_answer ''Do you use MFA?'' ''yes'' (initial_world []) =
     Returned PyNone ?w1"
    by code_simp
  have empty: "distinct (map Question (responses (initial_world [])))"
    by (simp add: initial_world_def)
  show ?thesis
    using first empty
      record_answer_idempotent [where question = "''Do you use MFA?''" and response = "''yes''"
        and w = "initial_world []" and v = PyNone and w' = ?w1 and response' = "''no''"]
    by simp
qed

section \<open>Replies read by the format loop\<close>

text \<open>
  Claim C10. \<open>record_answer\<close> makes no \<open>Runner.run\<close> call: the replies it reads in
  its re-prompt loop reach neither the clarification step nor the answer checker, and
  \<open>classify_answer\<close> plays no part in what it does. The record it creates carries the
  first reply that passes \<open>validate_answer\<close>, also when \<open>classify_answer\<close> gives
  \<open>clarification\<close> for that reply, as for \<open>Yes, but why?\<close>.
\<close>

theorem format_loop_bypasses_semantic_stages:
  "runs (world_of (record_answer question response w)) = runs w
   \<and> (\<forall>e\<in>set (drop (length (console w))
                 (console (world_of (record_answer question response w)))).
        \<forall>a role content. e \<noteq> RunnerRun a role content)
   \<and> (validate_answer response = ''INVALID''
      \<and> stdin w = bad @ l # rest
      \<and> (\<forall>b\<in>set bad. validate_answer (strip b) = ''INVALID'')
      \<and> validate_answer (strip l) \<noteq> ''INVALID''
      \<and> \<not> list_ex (\<lambda>item. Question item = question) (responses w) \<longrightarrow>
        responses (world_of (record_answer question response w)) =
          responses w @ [\<lparr>Question = question, Answer = validate_answer (strip l),
                           Entire_Answer = strip l\<rparr>])"
proof -
  obtain k tail where "console (world_of (record_answer question response w)) =
       console w @ replicate k (InputPrompt format_prompt) @ tail"
     and "\<forall>e\<in>set tail. \<exists>args. e = Print args"
    using record_answer_console by blast
  then have "\<forall>e\<in>set (drop (length (console w))
                 (console (world_of (record_answer question response w)))).
        \<forall>a role content. e \<noteq> RunnerRun a role content"
    by auto
  moreover have "validate_answer response = ''INVALID''
      \<and> stdin w = bad @ l # rest
      \<and> (\<forall>b\<in>set bad. validate_answer (strip b) = ''INVALID'')
      \<and> validate_answer (strip l) \<noteq> ''INVALID''
      \<and> \<not> list_ex (\<lambda>item. Question item = question) (responses w) \<longrightarrow>
        responses (world_of (record_answer question response w)) =
          responses w @ [\<lparr>Question = question, Answer = validate_answer (strip l),
                           Entire_Answer = strip l\<rparr>]"
    by (auto simp: record_answer_accepts)
  ultimately show ?thesis
    by (simp add: record_answer_frame)
qed

theorem format_loop_bypasses_semantic_stages_witness:
  "classify_answer ''Yes, but why?'' = ''clarification''
   \<and> validate_answer ''banana'' = ''INVALID''
   \<and> runs (world_of (record_answer ''Do you use MFA?'' ''banana''
              (initial_world [''Yes, but why?'']))) = 0
   \<and> console (world_of (record_answer ''Do you use MFA?'' ''banana''
         (initial_world [''Yes, but why?'']))) =
       [InputPrompt format_prompt, Print [''Answer recorded: Yes, but why?'']]
   \<and> responses (world_of (record_answer ''Do you use MFA?'' ''banana''
         (initial_world [''Yes, but why?'']))) =
       [\<lparr>Question = ''Do you use MFA?'', Answer = ''YES'',
         Entire_Answer = ''Yes, but why?''\<rparr>]"
proof -
  have triage: "classify_answer ''Yes, but why?'' = ''clarification''"
    by code_simp
  have banana: "validate_answer ''banana'' = ''INVALID''"
    by code_simp
  have yes: "validate_answer (strip ''Yes, but why?'') = ''YES''"
    "strip ''Yes, but why?'' = ''Yes, but why?''" "validate_answer ''Yes, but why?'' = ''YES''"
    by code_simp+
  have shown: "console (world_of (record_answer ''Do you use MFA?'' ''banana''
         (initial_world [''Yes, but why?'']))) =
       [InputPrompt format_prompt, Print [''Answer recorded: Yes, but why?'']]"
    by code_simp
  show ?thesis
    using triage banana shown
      format_loop_bypasses_semantic_stages [where question = "''Do you use MFA?''"
        and response = "''banana''" and w = "initial_world [''Yes, but why?'']"
        and bad = "[]" and l = "''Yes, but why?''" and rest = "[]"]
    by (simp add: initial_world_def yes)
qed

section \<open>The clarification loop\<close>

text \<open>
  The calls and prompts of \<open>run_question\<close> are: the asking call and the prompt for an
  answer; then, for each leading reply classified \<open>clarification\<close>, one clarification
  call with the question and that reply, one re-ask call with the question and one
  prompt for a new answer, for any number of such replies; then, when a reply
  classified \<open>valid\<close> arrives, the answer checker's call with that reply, after which no
  \<open>Runner.run\<close> call follows. When standard input ends before such a reply, the run
  ends with \<open>EOFError\<close> and the recorder and the report file are unchanged. When each
  asking call returns exactly one message output, every round prints the question
  exactly once, between the re-ask call and the prompt.
\<close>

lemma run_question_rounds:
  "((\<forall>l\<in>set (stdin w). classify_answer (strip l) = ''clarification'') \<longrightarrow>
      (\<exists>w'. run_question R domain question w = Raised EOFError w'
            \<and> responses w' = responses w \<and> report_file w' = report_file w)
      \<and> control (new_events w (run_question R domain question w)) =
          RunnerRun MainController ''system'' question # InputPrompt ''Your answer: ''
          # concat (map (clar_round question) (map strip (stdin w))))
   \<and> (stdin w = cs @ v # rest
      \<and> (\<forall>c\<in>set cs. classify_answer (strip c) = ''clarification'')
      \<and> classify_answer (strip v) = ''valid'' \<longrightarrow>
      (\<exists>tail. control (new_events w (run_question R domain question w)) =
          RunnerRun MainController ''system'' question # InputPrompt ''Your answer: ''
          # concat (map (clar_round question) (map strip cs))
          @ RunnerRun AnswerCheckerAgent ''user'' (check_content question (strip v)) # tail
        \<and> (\<forall>e\<in>set tail. \<forall>a role content. e \<noteq> RunnerRun a role content))
      \<and> ((\<forall>n. length (filter is_message (R n MainController ''system'' question)) = 1) \<longrightarrow>
          (\<exists>tail. steps (new_events w (run_question R domain question w)) =
             RunnerRun MainController ''system'' question
             # Print [''Question:'', strip question]
             # InputPrompt ''Your answer: ''
             # concat (map (\<lambda>reply.
                  [RunnerRun MainController ''user'' (clar_prompt question reply),
                   RunnerRun MainController ''system'' question,
                   Print [''Question re-asked:'', strip question],
                   InputPrompt ''Your answer after clarification: '']) (map strip cs))
             @ RunnerRun AnswerCheckerAgent ''user'' (check_content question (strip v))
             # tail
           \<and> (\<forall>e\<in>set tail. \<forall>a role content. e \<noteq> RunnerRun a role content))))"
proof (intro conjI impI)
  assume ex: "\<forall>l\<in>set (stdin w). classify_answer (strip l) = ''clarification''"
  show "\<exists>w'. run_question R domain question w = Raised EOFError w'
            \<and> responses w' = responses w \<and> report_file w' = report_file w"
    by (simp add: run_question_exhausted [OF ex])
  show "control (new_events w (run_question R domain question w)) =
          RunnerRun MainController ''system'' question # InputPrompt ''Your answer: ''
          # concat (map (clar_round question) (map strip (stdin w)))"
    by (simp add: run_question_exhausted_events [OF ex])
next
  assume a: "stdin w = cs @ v # rest
      \<and> (\<forall>c\<in>set cs. classify_answer (strip c) = ''clarification'')
      \<and> classify_answer (strip v) = ''valid''"
  then have nc: "classify_answer (strip v) \<noteq> ''clarification''"
    by simp
  obtain k tail where
    ev: "new_events w (run_question R domain question w) =
       ask_events R question (runs w) @ InputPrompt ''Your answer: ''
       # clar_events R question (Suc (runs w)) (map strip cs)
       @ RunnerRun AnswerCheckerAgent ''user'' (check_content question (strip v))
       # checker_prints (R (Suc (runs w) + 2 * length cs) AnswerCheckerAgent ''user''
                            (check_content question (strip v)))
       @ replicate k (InputPrompt format_prompt) @ tail"
    and t: "tail = [] \<or> (\<exists>line rs. tail = [Print [line], FileWrite rs,
                           Print [''Report saved to '' @ filename]])"
    using run_question_answered_shape [of w cs v rest R domain question] a nc
    by blast
  let ?tail = "replicate k (InputPrompt format_prompt) @ control tail"
  have no_run: "\<forall>e\<in>set ?tail. \<forall>a role content. e \<noteq> RunnerRun a role content"
    using t by auto
  have "control (new_events w (run_question R domain question w)) =
          RunnerRun MainController ''system'' question # InputPrompt ''Your answer: ''
          # concat (map (clar_round question) (map strip cs))
          @ RunnerRun AnswerCheckerAgent ''user'' (check_content question (strip v)) # ?tail"
    by (simp add: ev)
  with no_run show "\<exists>tail. control (new_events w (run_question R domain question w)) =
          RunnerRun MainController ''system'' question # InputPrompt ''Your answer: ''
          # concat (map (clar_round question) (map strip cs))
          @ RunnerRun AnswerCheckerAgent ''user'' (check_content question (strip v)) # tail
        \<and> (\<forall>e\<in>set tail. \<forall>a role content. e \<noteq> RunnerRun a role content)"
    by blast
  assume one: "\<forall>n. length (filter is_message (R n MainController ''system'' question)) = 1"
  let ?tail' = "replicate k (InputPrompt format_prompt) @ steps tail"
  have no_run': "\<forall>e\<in>set ?tail'. \<forall>a role content. e \<noteq> RunnerRun a role content"
    using t by (auto simp: steps_def)
  have prompts: "steps (replicate k (InputPrompt format_prompt))
                   = replicate k (InputPrompt format_prompt)"
    by (simp add: steps_def)
  have "steps (new_events w (run_question R domain question w)) =
             RunnerRun MainController ''system'' question
             # Print [''Question:'', strip question]
             # InputPrompt ''Your answer: ''
             # concat (map (\<lambda>reply.
                  [RunnerRun MainController ''user'' (clar_prompt question reply),
                   RunnerRun MainController ''system'' question,
                   Print [''Question re-asked:'', strip question],
                   InputPrompt ''Your answer after clarification: '']) (map strip cs))
             @ RunnerRun AnswerCheckerAgent ''user'' (check_content question (strip v))
             # ?tail'"
    by (simp add: ev ask_events_def prompts
        clar_events_steps [where R = R and question = question, OF one])
  with no_run' show "\<exists>tail. steps (new_events w (run_question R domain question w)) =
             RunnerRun MainController ''system'' question
             # Print [''Question:'', strip question]
             # InputPrompt ''Your answer: ''
             # concat (map (\<lambda>reply.
                  [RunnerRun MainController ''user'' (clar_prompt question reply),
                   RunnerRun MainController ''system'' question,
                   Print [''Question re-asked:'', strip question],
                   InputPrompt ''Your answer after clarification: '']) (map strip cs))
             @ RunnerRun AnswerCheckerAgent ''user'' (check_content question (strip v))
             # tail
           \<and> (\<forall>e\<in>set tail. \<forall>a role content. e \<noteq> RunnerRun a role content)"
    by blast
qed

text \<open>
  Claim C7. Each clarification is to be followed unconditionally by one
  re-presentation of the question. Step 1 prints the question once whatever the asking
  call returns; Step 4 prints it inside the loop over the items of the re-ask result,
  once for each message output. With a re-ask result that holds a handoff output and no
  message output, nothing is printed between the re-ask call and the prompt for a new
  answer: the question is not presented again. With a result of two message outputs
  the question is printed twice. The calls and the prompts are as claimed in both runs:
  one clarification call with the question and the reply, one re-ask call, one prompt,
  then the answer checker's call on the reply classified \<open>valid\<close>.
\<close>

theorem reask_prints_once_per_message:
  "console (world_of (run_question
       (\<lambda>n a role content. [HandoffOutputItem MainController QuestionAgent])
       ''Access'' ''Do you use MFA?'' (initial_world [''What does MFA mean?'', ''yes''])))
     = [RunnerRun MainController ''system'' ''Do you use MFA?'',
        Print [''Question:'', ''Do you use MFA?''],
        Print [''Handoff: MainController -> QuestionAgent''],
        InputPrompt ''Your answer: '',
        RunnerRun MainController ''user''
          (''Clarify the question: Do you use MFA?'' @ [CHR 0x0A]
           @ ''User asked: What does MFA mean?''),
        Print [''Handoff: MainController -> QuestionAgent''],
        RunnerRun MainController ''system'' ''Do you use MFA?'',
        Print [''Handoff: MainController -> QuestionAgent''],
        InputPrompt ''Your answer after clarification: '',
        RunnerRun AnswerCheckerAgent ''user''
          (''Question: Do you use MFA?'' @ [CHR 0x0A] @ ''Answer: yes''),
        Print [''Answer recorded: yes''],
        FileWrite [\<lparr>Question = ''Do you use MFA?'', Answer = ''YES'',
                    Entire_Answer = ''yes''\<rparr>],
        Print [''Report saved to risk_assessment_report.json'']]
   \<and> console (world_of (run_question
       (\<lambda>n a role content. [MessageOutputItem ''Is MFA in use?'',
                              MessageOutputItem ''Do you use MFA?''])
       ''Access'' ''Do you use MFA?'' (initial_world [''What does MFA mean?'', ''yes''])))
     = [RunnerRun MainController ''system'' ''Do you use MFA?'',
        Print [''Question:'', ''Do you use MFA?''],
        InputPrompt ''Your answer: '',
        RunnerRun MainController ''user''
          (''Clarify the question: Do you use MFA?'' @ [CHR 0x0A]
           @ ''User asked: What does MFA mean?''),
        Print [''Clarification:'', ''Is MFA in use?''],
        Print [''Clarification:'', ''Do you use MFA?''],
        RunnerRun MainController ''system'' ''Do you use MFA?'',
        Print [''Question re-asked:'', ''Do you use MFA?''],
        Print [''Question re-asked:'', ''Do you use MFA?''],
        InputPrompt ''Your answer after clarification: '',
        RunnerRun AnswerCheckerAgent ''user''
          (''Question: Do you use MFA?'' @ [CHR 0x0A] @ ''Answer: yes''),
        Print [''is mfa in use?''],
        Print [''do you use mfa?''],
        Print [''Answer recorded: yes''],
        FileWrite [\<lparr>Question = ''Do you use MFA?'', Answer = ''YES'',
                    Entire_Answer = ''yes''\<rparr>],
        Print [''Report saved to risk_assessment_report.json'']]"
  by code_simp

section \<open>The question as presented\<close>

text \<open>
  Claim C6. Every text that \<open>run_question\<close> prints as the question, by Step 1 or by
  Step 4 after a clarification, is the original question stripped, whatever the agents
  return; Step 1 prints it once, so there is at least one such print.
\<close>

theorem question_presented_verbatim:
  "\<exists>m. presentations (new_events w (run_question R domain question w))
        = replicate (Suc m) (strip question)"
proof -
  consider (exhausted) "\<forall>l\<in>set (stdin w). classify_answer (strip l) = ''clarification''"
    | (answered) cs v rest where "stdin w = cs @ v # rest"
        "\<forall>c\<in>set cs. classify_answer (strip c) = ''clarification''"
        "classify_answer (strip v) \<noteq> ''clarification''"
    using replies_cases [of "stdin w"] by blast
  then show ?thesis
  proof cases
    case exhausted
    obtain m where "presentations (clar_events R question (Suc (runs w)) (map strip (stdin w)))
                      = replicate m (strip question)"
      using clar_events_presentations by blast
    then have "presentations (new_events w (run_question R domain question w))
        = replicate (Suc m) (strip question)"
      by (simp add: run_question_exhausted_events [OF exhausted])
    then show ?thesis
      by blast
  next
    case answered
    obtain m where m: "presentations (clar_events R question (Suc (runs w)) (map strip cs))
                      = replicate m (strip question)"
      using clar_events_presentations by blast
    obtain k tail where
      ev: "new_events w (run_question R domain question w) =
        ask_events R question (runs w) @ InputPrompt ''Your answer: ''
        # clar_events R question (Suc (runs w)) (map strip cs)
        @ RunnerRun AnswerCheckerAgent ''user'' (check_content question (strip v))
        # checker_prints (R (Suc (runs w) + 2 * length cs) AnswerCheckerAgent ''user''
                             (check_content question (strip v)))
        @ replicate k (InputPrompt format_prompt) @ tail"
      and t: "tail = [] \<or> (\<exists>line rs. tail = [Print [line], FileWrite rs,
                            Print [''Report saved to '' @ filename]])"
      using run_question_answered_shape [OF answered, of R domain question]
      by blast
    from t have "presentations tail = []"
      by auto
    with m have "presentations (new_events w (run_question R domain question w))
        = replicate (Suc m) (strip question)"
      by (simp add: ev)
    then show ?thesis
      by blast
  qed
qed

section \<open>The answer checker's verdict\<close>

text \<open>
  Claim C3. Two runs of one question from the same world, with language models that
  agree on every call except those of the answer checker, end the same way and in
  worlds that differ at most in what was printed: the recorder's sequence, the report
  file, the input consumed and the value returned are the same. What the answer
  checker returns is printed and never read.
\<close>

theorem checker_verdict_not_enforced:
  assumes "\<forall>n a role content.
             a \<noteq> AnswerCheckerAgent \<longrightarrow> R1 n a role content = R2 n a role content"
  shows "responses (world_of (run_question R1 domain question w))
           = responses (world_of (run_question R2 domain question w))
         \<and> report_file (world_of (run_question R1 domain question w))
           = report_file (world_of (run_question R2 domain question w))
         \<and> forget (run_question R1 domain question w)
           = forget (run_question R2 domain question w)"
proof -
  have eq: "forget (run_question R1 domain question w)
              = forget (run_question R2 domain question w)"
    using assms by (rule run_question_forget)
  have fields: "responses (world_of (forget r)) = responses (world_of r)"
    "report_file (world_of (forget r)) = report_file (world_of r)" for r :: "py_value result"
    by (cases r; simp add: forget_console_def)+
  have "responses (world_of (run_question R1 domain question w))
           = responses (world_of (run_question R2 domain question w))"
    using arg_cong [OF eq, of "\<lambda>r. responses (world_of r)"] by (simp only: fields)
  moreover have "report_file (world_of (run_question R1 domain question w))
           = report_file (world_of (run_question R2 domain question w))"
    using arg_cong [OF eq, of "\<lambda>r. report_file (world_of r)"] by (simp only: fields)
  ultimately show ?thesis
    using eq by simp
qed

theorem checker_verdict_not_enforced_witness:
  "responses (world_of (run_question
       (\<lambda>n a role content. if a = AnswerCheckerAgent then [MessageOutputItem ''valid'']
                             else [MessageOutputItem ''Is MFA in use?''])
       ''Access'' ''Do you use MFA?'' (initial_world [''banana'', ''yes''])))
     = [\<lparr>Question = ''Do you use MFA?'', Answer = ''YES'', Entire_Answer = ''yes''\<rparr>]
   \<and> responses (world_of (run_question
       (\<lambda>n a role content. if a = AnswerCheckerAgent then [MessageOutputItem ''off_topic'']
                             else [MessageOutputItem ''Is MFA in use?''])
       ''Access'' ''Do you use MFA?'' (initial_world [''banana'', ''yes''])))
     = [\<lparr>Question = ''Do you use MFA?'', Answer = ''YES'', Entire_Answer = ''yes''\<rparr>]"
proof -
  let ?R1 = "\<lambda>(n::nat) a (role::string) (content::string).
               if a = AnswerCheckerAgent then [MessageOutputItem ''valid'']
               else [MessageOutputItem ''Is MFA in use?'']"
  let ?R2 = "\<lambda>(n::nat) a (role::string) (content::string).
               if a = AnswerCheckerAgent then [MessageOutputItem ''off_topic'']
               else [MessageOutputItem ''Is MFA in use?'']"
  have agree: "\<forall>n a role content.
                 a \<noteq> AnswerCheckerAgent \<longrightarrow> ?R1 n a role content = ?R2 n a role content"
    by simp
  have first: "responses (world_of (run_question ?R1 ''Access'' ''Do you use MFA?''
                 (initial_world [''banana'', ''yes''])))
     = [\<lparr>Question = ''Do you use MFA?'', Answer = ''YES'', Entire_Answer = ''yes''\<rparr>]"
    by code_simp
  show ?thesis
    using first
      checker_verdict_not_enforced [OF agree, where domain = "''Access''"
        and question = "''Do you use MFA?''" and w = "initial_world [''banana'', ''yes'']"]
    by simp
qed

section \<open>Saving the report\<close>



end
